theory Spec2Isabelle
  imports Main "HOL-Library.Sublist" "HOL-Library.AList"
begin

section \<open>JavaScript strings\<close>

text \<open>
  A JavaScript string is modelled as a \<^typ>\<open>string\<close>; a \<^typ>\<open>char\<close> stands for a code unit
  below U+0100. \<open>is_space\<close> is the set that \<open>String.prototype.trim\<close> and the regular
  expression class \<open>\s\<close> remove in that range: TAB, LF, VT, FF, CR, SPACE and NBSP.
\<close>

definition is_space :: "char \<Rightarrow> bool" where
  "is_space c = (c \<in> set [CHR 0x09, CHR 0x0A, CHR 0x0B, CHR 0x0C, CHR 0x0D, CHR 0x20, CHR 0xA0])"

definition trim :: "string \<Rightarrow> string" where
  "trim s = rev (dropWhile is_space (rev (dropWhile is_space s)))"

definition startsWith :: "string \<Rightarrow> string \<Rightarrow> bool" where
  "startsWith s p = (take (length p) s = p)"

text \<open>\<open>s.split(sep)\<close> for a one-character separator: always at least one piece.\<close>

fun split :: "string \<Rightarrow> char \<Rightarrow> string list" where
  "split [] sep = [[]]"
| "split (c # cs) sep =
     (if c = sep then [] # split cs sep
      else (case split cs sep of p # ps \<Rightarrow> (c # p) # ps | [] \<Rightarrow> [[c]]))"

text \<open>\<open>s.repeat(n)\<close> for a count that is a natural number.\<close>

definition repeat :: "string \<Rightarrow> nat \<Rightarrow> string" where
  "repeat s n = concat (replicate n s)"

text \<open>\<open>toLowerCase\<close> on code units below U+0100: A-Z and the Latin-1 capitals.\<close>

definition lower_char :: "char \<Rightarrow> char" where
  "lower_char c =
     (let n = of_char c :: nat
      in if (65 \<le> n \<and> n \<le> 90) \<or> (192 \<le> n \<and> n \<le> 222 \<and> n \<noteq> 215)
         then char_of (n + 32) else c)"

definition toLowerCase :: "string \<Rightarrow> string" where
  "toLowerCase s = map lower_char s"

section \<open>JavaScript values read from JSON\<close>

text \<open>
  What \<open>JSON.parse\<close> can return, and \<open>undefined\<close> for a property that is not there.
  Numbers are kept as integers: the program only tests them for truthiness.
  An object is the list of its own properties in enumeration order.
\<close>

datatype jsval =
    Undefined
  | JNull
  | JBool bool
  | JNum int
  | JStr string
  | JArr "jsval list"
  | JObj "(string \<times> jsval) list"

datatype error = SystemError | SyntaxError | TypeError

fun truthy :: "jsval \<Rightarrow> bool" where
  "truthy Undefined = False"
| "truthy JNull = False"
| "truthy (JBool b) = b"
| "truthy (JNum n) = (n \<noteq> 0)"
| "truthy (JStr s) = (s \<noteq> [])"
| "truthy (JArr xs) = True"
| "truthy (JObj kvs) = True"

text \<open>\<open>a || b\<close> and \<open>a ?? b\<close>.\<close>

definition js_or :: "jsval \<Rightarrow> jsval \<Rightarrow> jsval" where
  "js_or a b = (if truthy a then a else b)"

definition nullish :: "jsval \<Rightarrow> jsval \<Rightarrow> jsval" where
  "nullish a b = (if a = Undefined \<or> a = JNull then b else a)"

text \<open>
  \<open>v.key\<close>, for the property names this program reads (none of them is inherited from a
  prototype): a \<open>TypeError\<close> on \<open>null\<close> and \<open>undefined\<close>, the own property of an object,
  \<open>undefined\<close> on everything else.
\<close>

fun get_prop :: "jsval \<Rightarrow> string \<Rightarrow> error + jsval" where
  "get_prop Undefined key = Inl TypeError"
| "get_prop JNull key = Inl TypeError"
| "get_prop (JObj kvs) key = Inr (case map_of kvs key of Some v \<Rightarrow> v | None \<Rightarrow> Undefined)"
| "get_prop v key = Inr Undefined"

section \<open>The data model (types/index.ts)\<close>

text \<open>
  \<open>projectName\<close> and \<open>description\<close> are declared as strings, but for an npm manifest
  they hold whatever \<open>package.json\<close> gives for \<open>name\<close> and \<open>description\<close>, so they are
  JavaScript values here; the same holds for the fields that copy them.
\<close>

datatype node_type = File | Directory

datatype DirectoryNode =
  DirectoryNode (name: string) (type: node_type) (children: "DirectoryNode list") (path: string)

datatype manifest_type = Npm | Pip | Cargo | Other

record DependencyManifest =
  type :: manifest_type
  filePath :: string
  projectName :: jsval
  description :: jsval
  dependencies :: "string list"

section \<open>The Node.js runtime the program calls\<close>

text \<open>
  \<open>path.basename\<close>, \<open>path.extname\<close> and \<open>path.join\<close> for POSIX paths. The last
  component of a path is what follows the last slash once trailing slashes are dropped.
\<close>

definition basename :: "string \<Rightarrow> string" where
  "basename p =
     rev (takeWhile (\<lambda>c. c \<noteq> CHR ''/'') (dropWhile (\<lambda>c. c = CHR ''/'') (rev p)))"

text \<open>
  The extension starts at the last dot of the last component; it is empty when there is
  no dot, when the last dot is the first character, and when the component is \<open>..\<close>.
\<close>

definition extname :: "string \<Rightarrow> string" where
  "extname p =
     (let base = basename p;
          after = takeWhile (\<lambda>c. c \<noteq> CHR ''.'') (rev base)
      in case dropWhile (\<lambda>c. c \<noteq> CHR ''.'') (rev base) of
           [] \<Rightarrow> ''''
         | dot # stem \<Rightarrow>
             if stem = [] \<or> base = ''..'' then '''' else rev (after @ [dot]))"

fun join_with :: "string \<Rightarrow> string list \<Rightarrow> string" where
  "join_with sep [] = ''''"
| "join_with sep [x] = x"
| "join_with sep (x # y # ys) = x @ sep @ join_with sep (y # ys)"

fun normalizeString :: "string list \<Rightarrow> bool \<Rightarrow> string list \<Rightarrow> string list" where
  "normalizeString [] allowAboveRoot res = res"
| "normalizeString (seg # segs) allowAboveRoot res =
     normalizeString segs allowAboveRoot
       (if seg = '''' \<or> seg = ''.'' then res
        else if seg = ''..'' then
          (if res \<noteq> [] \<and> last res \<noteq> ''..'' then butlast res
           else if allowAboveRoot then res @ [''..'']
           else res)
        else res @ [seg])"

definition normalize :: "string \<Rightarrow> string" where
  "normalize p =
     (if p = '''' then ''.''
      else
        let isAbsolute = (hd p = CHR ''/'');
            trailingSeparator = (last p = CHR ''/'');
            q = join_with ''/'' (normalizeString (split p CHR ''/'') (\<not> isAbsolute) [])
        in if q = '''' then (if isAbsolute then ''/'' else if trailingSeparator then ''./'' else ''.'')
           else (if isAbsolute then ''/'' else '''') @ q @ (if trailingSeparator then ''/'' else ''''))"

definition join :: "string list \<Rightarrow> string" where
  "join parts =
     (let joined = join_with ''/'' (filter (\<lambda>a. a \<noteq> '''') parts)
      in if joined = '''' then ''.'' else normalize joined)"

text \<open>
  The file system and \<open>JSON.parse\<close>, as the program sees them during one run: every call
  either returns a value or throws. \<open>statSync\<close> returns the \<open>Stats\<close> of which only
  \<open>isFile()\<close> is read.
\<close>

record Stats =
  isFile :: bool

record runtime =
  statSync :: "string \<Rightarrow> error + Stats"
  readdirSync :: "string \<Rightarrow> error + string list"
  existsSync :: "string \<Rightarrow> bool"
  readFileSync :: "string \<Rightarrow> error + string"
  JSON_parse :: "string \<Rightarrow> error + jsval"

text \<open>Decimal digits of an array index, for \<open>Object.keys\<close> of arrays and strings.\<close>

fun decimal :: "nat \<Rightarrow> string" where
  "decimal n =
     (if n < 10 then [char_of (48 + n)] else decimal (n div 10) @ [char_of (48 + n mod 10)])"

fun Object_keys :: "jsval \<Rightarrow> error + string list" where
  "Object_keys Undefined = Inl TypeError"
| "Object_keys JNull = Inl TypeError"
| "Object_keys (JObj kvs) = Inr (map fst kvs)"
| "Object_keys (JArr xs) = Inr (map decimal [0..<length xs])"
| "Object_keys (JStr s) = Inr (map decimal [0..<length s])"
| "Object_keys v = Inr []"

text \<open>
  \<open>content.match(/key\s*=\s*"([^"]+)"/)\<close>: the first capture group of the leftmost
  match, if any. At a given start the match is unique: whitespace cannot be \<open>=\<close> or a
  quote, and the captured run stops at the first quote.
\<close>

definition match_here :: "string \<Rightarrow> string \<Rightarrow> string option" where
  "match_here key s =
     (if startsWith s key then
        (case dropWhile is_space (drop (length key) s) of
           [] \<Rightarrow> None
         | c # r \<Rightarrow>
             if c = CHR ''='' then
               (case dropWhile is_space r of
                  [] \<Rightarrow> None
                | q # r2 \<Rightarrow>
                    if q = CHR 0x22 then
                      (let v = takeWhile (\<lambda>c. c \<noteq> CHR 0x22) r2;
                           rest = dropWhile (\<lambda>c. c \<noteq> CHR 0x22) r2
                       in if v \<noteq> [] \<and> rest \<noteq> [] then Some v else None)
                    else None)
             else None)
      else None)"

fun regex_match :: "string \<Rightarrow> string \<Rightarrow> string option" where
  "regex_match key [] = match_here key []"
| "regex_match key (c # cs) =
     (case match_here key (c # cs) of
        Some v \<Rightarrow> Some v
      | None \<Rightarrow> regex_match key cs)"

section \<open>FileSystemAnalyzer\<close>

text \<open>
  \<open>scanDirectoryStructure\<close>. An exception of \<open>statSync\<close> leaves the function; the inner
  \<open>try\<close> of the caller's loop swallows it for a child. An exception of \<open>readdirSync\<close> is
  swallowed by the outer \<open>try\<close>.
\<close>

function scanDirectoryStructure :: "runtime \<Rightarrow> string \<Rightarrow> int \<Rightarrow> int \<Rightarrow> error + DirectoryNode" where
  "scanDirectoryStructure env rootPath maxDepth currentDepth =
     (case statSync env rootPath of
        Inl err \<Rightarrow> Inl err
      | Inr stats \<Rightarrow>
          if isFile stats then Inr (DirectoryNode (basename rootPath) File [] rootPath)
          else if currentDepth \<ge> maxDepth
          then Inr (DirectoryNode (basename rootPath) Directory [] rootPath)
          else
            (case readdirSync env rootPath of
               Inl err \<Rightarrow> Inr (DirectoryNode (basename rootPath) Directory [] rootPath)
             | Inr entries \<Rightarrow>
                 Inr (DirectoryNode (basename rootPath) Directory
                   (fold (\<lambda>entry children.
                        if startsWith entry ''.'' \<and> entry \<noteq> ''.gitignore'' then children
                        else if entry = ''node_modules'' then children
                        else if entry = ''dist'' then children
                        else
                          (case scanDirectoryStructure env (join [rootPath, entry]) maxDepth
                                  (currentDepth + 1) of
                             Inl err \<Rightarrow> children
                           | Inr childNode \<Rightarrow> children @ [childNode]))
                      entries [])
                   rootPath)))"
  by pat_completeness auto
termination
  by (relation "measure (\<lambda>(env, rootPath, maxDepth, currentDepth). nat (maxDepth - currentDepth))")
    auto

declare scanDirectoryStructure.simps [simp del]

text \<open>
  \<open>detectLanguage\<close>: the tally, the table, the search for the maximum. The tally is an
  object whose keys all begin with a dot, so \<open>Object.entries\<close> visits them in the order
  in which they were first assigned.
\<close>

fun extensionCounts_loop :: "string list \<Rightarrow> (string \<times> nat) list \<Rightarrow> (string \<times> nat) list" where
  "extensionCounts_loop [] extensionCounts = extensionCounts"
| "extensionCounts_loop (file # files) extensionCounts =
     (let ext = toLowerCase (extname file)
      in extensionCounts_loop files
           (if ext \<noteq> ''''
            then AList.update ext
                   ((case map_of extensionCounts ext of
                       None \<Rightarrow> 0
                     | Some n \<Rightarrow> if n = 0 then 0 else n) + 1)
                   extensionCounts
            else extensionCounts))"

definition languageMap :: "(string \<times> string) list" where
  "languageMap =
     [(''.ts'', ''TypeScript''),
      (''.js'', ''JavaScript''),
      (''.py'', ''Python''),
      (''.rs'', ''Rust''),
      (''.go'', ''Go''),
      (''.java'', ''Java''),
      (''.cpp'', ''C++''),
      (''.c'', ''C''),
      (''.rb'', ''Ruby''),
      (''.php'', ''PHP'')]"

fun primaryExt_loop :: "(string \<times> nat) list \<Rightarrow> nat \<Rightarrow> string \<Rightarrow> string" where
  "primaryExt_loop [] maxCount primaryExt = primaryExt"
| "primaryExt_loop ((ext, count) # entries) maxCount primaryExt =
     (if count > maxCount then primaryExt_loop entries count ext
      else primaryExt_loop entries maxCount primaryExt)"

definition detectLanguage :: "string list \<Rightarrow> string" where
  "detectLanguage files =
     (let extensionCounts = extensionCounts_loop files [];
          primaryExt = primaryExt_loop extensionCounts 0 ''''
      in case map_of languageMap primaryExt of
           None \<Rightarrow> ''Unknown''
         | Some label \<Rightarrow> if label = '''' then ''Unknown'' else label)"

text \<open>
  \<open>findDependencyManifests\<close>. Each of the three blocks pushes a record unless the file is
  absent or something in its \<open>try\<close> throws.
\<close>

definition read_package_json :: "runtime \<Rightarrow> string \<Rightarrow> string \<Rightarrow> error + DependencyManifest" where
  "read_package_json env rootPath packageJsonPath =
     (case readFileSync env packageJsonPath of
        Inl err \<Rightarrow> Inl err
      | Inr text \<Rightarrow>
     (case JSON_parse env text of
        Inl err \<Rightarrow> Inl err
      | Inr content \<Rightarrow>
     (case get_prop content ''name'' of
        Inl err \<Rightarrow> Inl err
      | Inr nm \<Rightarrow>
     (case get_prop content ''description'' of
        Inl err \<Rightarrow> Inl err
      | Inr desc \<Rightarrow>
     (case get_prop content ''dependencies'' of
        Inl err \<Rightarrow> Inl err
      | Inr deps \<Rightarrow>
     (case Object_keys (js_or deps (JObj [])) of
        Inl err \<Rightarrow> Inl err
      | Inr keys \<Rightarrow>
          Inr \<lparr>type = Npm,
               filePath = packageJsonPath,
               projectName = js_or nm (JStr (basename rootPath)),
               description = js_or desc (JStr ''''),
               dependencies = keys\<rparr>))))))"

definition read_requirements :: "runtime \<Rightarrow> string \<Rightarrow> string \<Rightarrow> error + DependencyManifest" where
  "read_requirements env rootPath requirementsPath =
     (case readFileSync env requirementsPath of
        Inl err \<Rightarrow> Inl err
      | Inr content \<Rightarrow>
          let deps = filter (\<lambda>line. trim line \<noteq> '''' \<and> \<not> startsWith line ''#'')
                       (split content CHR ''\<newline>'')
          in Inr \<lparr>type = Pip,
                  filePath = requirementsPath,
                  projectName = JStr (basename rootPath),
                  description = JStr '''',
                  dependencies = deps\<rparr>)"

definition read_cargo_toml :: "runtime \<Rightarrow> string \<Rightarrow> string \<Rightarrow> error + DependencyManifest" where
  "read_cargo_toml env rootPath cargoPath =
     (case readFileSync env cargoPath of
        Inl err \<Rightarrow> Inl err
      | Inr content \<Rightarrow>
          let nameMatch = regex_match ''name'' content;
              descMatch = regex_match ''description'' content
          in Inr \<lparr>type = Cargo,
                  filePath = cargoPath,
                  projectName = (case nameMatch of Some v \<Rightarrow> JStr v
                                 | None \<Rightarrow> JStr (basename rootPath)),
                  description = (case descMatch of Some v \<Rightarrow> JStr v | None \<Rightarrow> JStr ''''),
                  dependencies = []\<rparr>)"

definition push_if_read ::
  "runtime \<Rightarrow> string \<Rightarrow> (error + DependencyManifest) \<Rightarrow> DependencyManifest list
     \<Rightarrow> DependencyManifest list" where
  "push_if_read env manifestPath attempt manifests =
     (if existsSync env manifestPath
      then (case attempt of Inl err \<Rightarrow> manifests | Inr manifest \<Rightarrow> manifests @ [manifest])
      else manifests)"

definition findDependencyManifests :: "runtime \<Rightarrow> string \<Rightarrow> DependencyManifest list" where
  "findDependencyManifests env rootPath =
     (let manifests = [];
          packageJsonPath = join [rootPath, ''package.json''];
          manifests = push_if_read env packageJsonPath
                        (read_package_json env rootPath packageJsonPath) manifests;
          requirementsPath = join [rootPath, ''requirements.txt''];
          manifests = push_if_read env requirementsPath
                        (read_requirements env rootPath requirementsPath) manifests;
          cargoPath = join [rootPath, ''Cargo.toml''];
          manifests = push_if_read env cargoPath
                        (read_cargo_toml env rootPath cargoPath) manifests
      in manifests)"

fun collectFiles :: "DirectoryNode \<Rightarrow> string list" where
  "collectFiles (DirectoryNode nm ty cs p) =
     (if ty = File then [p]
      else fold (\<lambda>child files. files @ collectFiles child) cs [])"

definition read_scripts :: "runtime \<Rightarrow> DependencyManifest \<Rightarrow> error + jsval" where
  "read_scripts env npmManifest =
     (case readFileSync env (filePath npmManifest) of
        Inl err \<Rightarrow> Inl err
      | Inr text \<Rightarrow>
     (case JSON_parse env text of
        Inl err \<Rightarrow> Inl err
      | Inr content \<Rightarrow>
     (case get_prop content ''scripts'' of
        Inl err \<Rightarrow> Inl err
      | Inr scr \<Rightarrow> Inr (js_or scr (JObj [])))))"

definition read_entryPoint :: "runtime \<Rightarrow> DependencyManifest \<Rightarrow> error + jsval" where
  "read_entryPoint env npmManifest =
     (case readFileSync env (filePath npmManifest) of
        Inl err \<Rightarrow> Inl err
      | Inr text \<Rightarrow>
     (case JSON_parse env text of
        Inl err \<Rightarrow> Inl err
      | Inr content \<Rightarrow>
     (case get_prop content ''main'' of
        Inl err \<Rightarrow> Inl err
      | Inr mn \<Rightarrow>
     (case get_prop content ''bin'' of
        Inl err \<Rightarrow> Inl err
      | Inr bn \<Rightarrow> Inr (js_or (js_or mn bn) JNull)))))"

record ProjectMetadata =
  name :: jsval
  description :: jsval
  language :: string
  entryPoint :: jsval
  scripts :: jsval
  dependencies :: "DependencyManifest list"
  "structure" :: DirectoryNode

definition analyzeProject :: "runtime \<Rightarrow> string \<Rightarrow> error + ProjectMetadata" where
  "analyzeProject env rootPath =
     (case scanDirectoryStructure env rootPath 3 0 of
        Inl err \<Rightarrow> Inl err
      | Inr tree \<Rightarrow>
          let files = collectFiles tree;
              lang = detectLanguage files;
              deps = findDependencyManifests env rootPath;
              primaryManifest = (case deps of [] \<Rightarrow> None | m # ms \<Rightarrow> Some m);
              nm = js_or (case primaryManifest of None \<Rightarrow> Undefined
                          | Some m \<Rightarrow> projectName m)
                     (JStr (basename rootPath));
              desc = js_or (case primaryManifest of None \<Rightarrow> Undefined
                            | Some m \<Rightarrow> DependencyManifest.description m)
                       (JStr '''');
              npmManifest = find (\<lambda>d. DependencyManifest.type d = Npm) deps;
              scr = (case npmManifest of
                       None \<Rightarrow> JObj []
                     | Some m \<Rightarrow> (case read_scripts env m of Inl err \<Rightarrow> JObj [] | Inr v \<Rightarrow> v));
              ep = (case npmManifest of
                      None \<Rightarrow> JNull
                    | Some m \<Rightarrow> (case read_entryPoint env m of Inl err \<Rightarrow> JNull | Inr v \<Rightarrow> v))
          in Inr \<lparr>name = nm,
                  description = desc,
                  language = lang,
                  entryPoint = ep,
                  scripts = scr,
                  dependencies = deps,
                  structure = tree\<rparr>)"

section \<open>ContentGenerator\<close>

fun generateInstallation_loop :: "DependencyManifest list \<Rightarrow> string \<Rightarrow> string" where
  "generateInstallation_loop [] content = content"
| "generateInstallation_loop (manifest # rest) content =
     generateInstallation_loop rest
       (if DependencyManifest.type manifest = Npm then
          ((content @ ''```bash\<newline>npm install\<newline>```\<newline>\<newline>'')
            @ ''or\<newline>\<newline>'')
            @ ''```bash\<newline>yarn install\<newline>```\<newline>\<newline>''
        else if DependencyManifest.type manifest = Pip then
          content @ ''```bash\<newline>pip install -r requirements.txt\<newline>```\<newline>\<newline>''
        else if DependencyManifest.type manifest = Cargo then
          content @ ''```bash\<newline>cargo build\<newline>```\<newline>\<newline>''
        else content)"

definition generateInstallation :: "DependencyManifest list \<Rightarrow> string" where
  "generateInstallation manifests =
     (if length manifests = 0 then ''''
      else generateInstallation_loop manifests ''\<newline>## Installation\<newline>\<newline>'')"

text \<open>
  The private \<open>formatTree(node, depth, maxDepth)\<close>. \<open>depth\<close> is a natural number: the only
  outside call passes 0 and every recursive call adds 1. \<open>maxDepth\<close> comes from the
  configuration and may be any integer.
\<close>

fun formatTree :: "DirectoryNode \<Rightarrow> nat \<Rightarrow> int \<Rightarrow> string" where
  "formatTree (DirectoryNode nm ty cs p) depth maxDepth =
     (if int depth > maxDepth then ''''
      else
        let indent = repeat ''  '' depth;
            result = '''';
            result = (if depth > 0
                      then (result @ indent @ nm) @ (if ty = Directory then ''/'' else '''')
                             @ ''\<newline>''
                      else result)
        in if ty = Directory
           then fold (\<lambda>child result. result @ formatTree child (depth + 1) maxDepth) cs result
           else result)"

definition generateStructure :: "DirectoryNode \<Rightarrow> int \<Rightarrow> string" where
  "generateStructure tree maxDepth =
     (''\<newline>## Project Structure\<newline>\<newline>```\<newline>'' @ formatTree tree 0 maxDepth)
       @ ''```\<newline>\<newline>''"

section \<open>MarkdownFormatter\<close>

text \<open>
  The sections object is the list of its own properties, all of them strings; \<open>sections[key]\<close>
  is \<open>undefined\<close> for a key that is not there. A string is truthy when it is not empty.
\<close>

definition order :: "string list" where
  "order = [''title'', ''description'', ''installation'', ''usage'', ''structure'', ''license'']"

fun assembleSections_loop :: "(string \<times> string) list \<Rightarrow> string list \<Rightarrow> string \<Rightarrow> string" where
  "assembleSections_loop sections [] result = result"
| "assembleSections_loop sections (key # keys) result =
     assembleSections_loop sections keys
       (case map_of sections key of
          None \<Rightarrow> result
        | Some v \<Rightarrow> if v \<noteq> '''' then result @ v else result)"

definition assembleSections :: "(string \<times> string) list \<Rightarrow> string" where
  "assembleSections sections = trim (assembleSections_loop sections order '''') @ ''\<newline>''"

section \<open>ConfigurationLoader\<close>

text \<open>
  The fields of the configuration hold whatever the JSON file gave: \<open>mergeWithDefaults\<close>
  does not check their types.
\<close>

record GeneratorConfig =
  excludeSections :: jsval
  customContent :: jsval
  maxDepth :: jsval
  includeHiddenFiles :: jsval

definition mergeWithDefaults :: "jsval \<Rightarrow> error + GeneratorConfig" where
  "mergeWithDefaults config =
     (case get_prop config ''excludeSections'' of
        Inl err \<Rightarrow> Inl err
      | Inr ex \<Rightarrow>
     (case get_prop config ''customContent'' of
        Inl err \<Rightarrow> Inl err
      | Inr cc \<Rightarrow>
     (case get_prop config ''maxDepth'' of
        Inl err \<Rightarrow> Inl err
      | Inr md \<Rightarrow>
     (case get_prop config ''includeHiddenFiles'' of
        Inl err \<Rightarrow> Inl err
      | Inr ih \<Rightarrow>
          Inr \<lparr>excludeSections = js_or ex (JArr []),
               customContent = js_or cc (JObj []),
               maxDepth = nullish md (JNum 3),
               includeHiddenFiles = nullish ih (JBool False)\<rparr>))))"

definition read_config :: "runtime \<Rightarrow> string \<Rightarrow> error + GeneratorConfig" where
  "read_config env configPath =
     (case readFileSync env configPath of
        Inl err \<Rightarrow> Inl err
      | Inr content \<Rightarrow>
     (case JSON_parse env content of
        Inl err \<Rightarrow> Inl err
      | Inr userConfig \<Rightarrow> mergeWithDefaults userConfig))"

definition loadConfig :: "runtime \<Rightarrow> string \<Rightarrow> error + GeneratorConfig" where
  "loadConfig env rootPath =
     (let configPath = join [rootPath, ''.readmerc.json'']
      in if existsSync env configPath
         then (case read_config env configPath of
                 Inr config \<Rightarrow> Inr config
               | Inl err \<Rightarrow> mergeWithDefaults (JObj []))
         else mergeWithDefaults (JObj []))"

text \<open>
  \<open>applySectionExclusion\<close> and \<open>applyCustomContent\<close> on their declared types: objects of
  strings and an array of strings. An object is the list of its own properties in the
  order \<open>Object.entries\<close> visits them, each key once (the order is the order of creation
  for keys that are not array indices, as the section keys are).

  \<open>result[key] = value\<close> replaces the value of an own property and otherwise creates one
  at the end, with one exception: for the key \<open>__proto__\<close> on an object that has no own
  property of that name the assignment reaches the setter inherited from
  \<open>Object.prototype\<close>, which ignores a string, so nothing is created.
\<close>

definition assign :: "string \<Rightarrow> string \<Rightarrow> (string \<times> string) list \<Rightarrow> (string \<times> string) list" where
  "assign key v obj =
     (if key = ''__proto__'' \<and> map_of obj key = None then obj else AList.update key v obj)"

definition applySectionExclusion ::
  "(string \<times> string) list \<Rightarrow> string list \<Rightarrow> (string \<times> string) list" where
  "applySectionExclusion sections excluded =
     fold (\<lambda>(key, v) result.
             if \<not> List.member excluded key then assign key v result else result)
       sections []"

text \<open>The spread \<open>{ ...sections }\<close> copies every own property, \<open>__proto__\<close> included.\<close>

definition applyCustomContent ::
  "(string \<times> string) list \<Rightarrow> (string \<times> string) list \<Rightarrow> (string \<times> string) list" where
  "applyCustomContent sections custom =
     fold (\<lambda>(key, v) result. if v \<noteq> '''' then assign key v result else result)
       custom sections"

text \<open>The two lines of \<open>main\<close> that apply them: exclusion first, then custom content.\<close>

definition main_apply_config ::
  "(string \<times> string) list \<Rightarrow> string list \<Rightarrow> (string \<times> string) list
     \<Rightarrow> (string \<times> string) list" where
  "main_apply_config sections excluded custom =
     (let sections = applySectionExclusion sections excluded;
          sections = applyCustomContent sections custom
      in sections)"

section \<open>Specification-side notions\<close>

text \<open>The block of installation commands the specification gives for one manifest.\<close>

definition install_block :: "manifest_type \<Rightarrow> string" where
  "install_block t =
     (case t of
        Npm \<Rightarrow> ''```bash\<newline>npm install\<newline>```\<newline>\<newline>or\<newline>\<newline>```bash\<newline>yarn install\<newline>```\<newline>\<newline>''
      | Pip \<Rightarrow> ''```bash\<newline>pip install -r requirements.txt\<newline>```\<newline>\<newline>''
      | Cargo \<Rightarrow> ''```bash\<newline>cargo build\<newline>```\<newline>\<newline>''
      | Other \<Rightarrow> '''')"

text \<open>
  The nodes below and including a node, in the order the renderer visits them, each with
  its depth; only directories are descended into.
\<close>

fun nodes_with_depth :: "DirectoryNode \<Rightarrow> nat \<Rightarrow> (nat \<times> DirectoryNode) list" where
  "nodes_with_depth (DirectoryNode nm ty cs p) d =
     (d, DirectoryNode nm ty cs p)
       # (if ty = Directory then concat (map (\<lambda>c. nodes_with_depth c (d + 1)) cs) else [])"

definition tree_line :: "nat \<times> DirectoryNode \<Rightarrow> string" where
  "tree_line dn =
     repeat ''  '' (fst dn) @ DirectoryNode.name (snd dn)
       @ (if DirectoryNode.type (snd dn) = Directory then ''/'' else '''') @ ''\<newline>''"

definition rendered :: "int \<Rightarrow> nat \<times> DirectoryNode \<Rightarrow> bool" where
  "rendered limit dn = (0 < fst dn \<and> int (fst dn) \<le> limit)"

text \<open>A chain of five nested directories below a root, with a file at the bottom.\<close>

definition chain5 :: DirectoryNode where
  "chain5 =
     DirectoryNode ''root'' Directory
      [DirectoryNode ''a'' Directory
        [DirectoryNode ''b'' Directory
          [DirectoryNode ''c'' Directory
            [DirectoryNode ''d'' Directory
              [DirectoryNode ''e.ts'' File [] ''root/a/b/c/d/e.ts'']
              ''root/a/b/c/d'']
            ''root/a/b/c'']
          ''root/a/b'',
         DirectoryNode ''f.ts'' File [] ''root/a/f.ts'']
        ''root/a'']
      ''root''"

text \<open>The configuration the loader falls back to.\<close>

definition default_config :: GeneratorConfig where
  "default_config =
     \<lparr>excludeSections = JArr [], customContent = JObj [], maxDepth = JNum 3,
      includeHiddenFiles = JBool False\<rparr>"

text \<open>A field is defined when it is neither \<open>undefined\<close> nor \<open>null\<close>.\<close>

definition defined :: "jsval \<Rightarrow> bool" where
  "defined v = (v \<noteq> Undefined \<and> v \<noteq> JNull)"

text \<open>
  The dependencies of a pip manifest as the specification words them: the lines that are
  neither blank nor comments, each trimmed.
\<close>

definition pip_dependencies_spec :: "string \<Rightarrow> string list" where
  "pip_dependencies_spec content =
     map trim (filter (\<lambda>line. trim line \<noteq> '''' \<and> \<not> startsWith line ''#'')
                 (split content CHR ''\<newline>''))"

text \<open>
  A small project directory \<open>/p\<close>: a source directory, a TypeScript file, dot entries, the
  two generated directories, an entry that vanished before it could be examined, and a
  \<open>requirements.txt\<close> with an indented line, a blank line and a comment.
\<close>

definition demo_requirements :: string where
  "demo_requirements = ''flask\<newline>  requests  \<newline>\<newline># pinned\<newline>numpy==1.0''"

definition demo_env :: runtime where
  "demo_env =
     \<lparr>statSync = (\<lambda>p. if p \<in> set [''/p'', ''/p/src'', ''/p/node_modules'', ''/p/dist'', ''/p/.git'']
                        then Inr \<lparr>isFile = False\<rparr>
                      else if p \<in> set [''/p/a.ts'', ''/p/.gitignore'', ''/p/src/b.ts'', ''/p/.env'',
                                         ''/p/requirements.txt'', ''/p/src/.readmerc.json'',
                                         ''/p/dist/.readmerc.json'']
                        then Inr \<lparr>isFile = True\<rparr>
                      else Inl SystemError),
      readdirSync = (\<lambda>p. if p = ''/p''
                           then Inr [''.git'', ''.gitignore'', ''.env'', ''node_modules'', ''dist'',
                                     ''gone'', ''src'', ''a.ts'', ''requirements.txt'']
                         else if p = ''/p/src'' then Inr [''.readmerc.json'', ''b.ts'']
                         else if p = ''/p/dist'' then Inr [''.readmerc.json'']
                         else Inl SystemError),
      existsSync = (\<lambda>p. p \<in> set [''/p'', ''/p/src'', ''/p/node_modules'', ''/p/dist'', ''/p/.git'',
                                     ''/p/a.ts'', ''/p/.gitignore'', ''/p/src/b.ts'', ''/p/.env'',
                                     ''/p/requirements.txt'', ''/p/src/.readmerc.json'',
                                     ''/p/dist/.readmerc.json'']),
      readFileSync = (\<lambda>p. if p = ''/p/requirements.txt'' then Inr demo_requirements
                          else if p = ''/p/src/.readmerc.json'' then Inr ''{ invalid json }''
                          else Inl SystemError),
      JSON_parse = (\<lambda>s. Inl SyntaxError)\<rparr>"

text \<open>
  A project \<open>/demo\<close> with a \<open>package.json\<close> that declares name and description, and one
  TypeScript file.
\<close>

definition npm_env :: runtime where
  "npm_env =
     \<lparr>statSync = (\<lambda>p. if p = ''/demo'' then Inr \<lparr>isFile = False\<rparr>
                      else if p \<in> set [''/demo/package.json'', ''/demo/a.ts'']
                        then Inr \<lparr>isFile = True\<rparr>
                      else Inl SystemError),
      readdirSync = (\<lambda>p. if p = ''/demo'' then Inr [''a.ts'', ''package.json'']
                         else Inl SystemError),
      existsSync = (\<lambda>p. p \<in> set [''/demo'', ''/demo/package.json'', ''/demo/a.ts'']),
      readFileSync = (\<lambda>p. if p = ''/demo/package.json''
                            then Inr ''{\"name\":\"demo\",\"description\":\"desc\"}''
                          else if p = ''/demo/a.ts'' then Inr ''''
                          else Inl SystemError),
      JSON_parse = (\<lambda>s. if s = ''{\"name\":\"demo\",\"description\":\"desc\"}''
                          then Inr (JObj [(''name'', JStr ''demo''), (''description'', JStr ''desc'')])
                        else Inl SyntaxError)\<rparr>"

text \<open>
  The non-empty lower-cased extensions of the file names, in input order: what the
  first loop of \<open>detectLanguage\<close> tallies.
\<close>

definition extensions :: "string list \<Rightarrow> string list" where
  "extensions files = filter (\<lambda>e. e \<noteq> '''') (map (\<lambda>f. toLowerCase (extname f)) files)"

text \<open>One step of the tally: \<open>counts[ext] = (counts[ext] || 0) + 1\<close>.\<close>

definition tally :: "string \<Rightarrow> (string \<times> nat) list \<Rightarrow> (string \<times> nat) list" where
  "tally e al = AList.update e ((case map_of al e of None \<Rightarrow> 0 | Some n \<Rightarrow> n) + 1) al"

text \<open>
  The keys of the tally stand in the order in which the extensions are first met: what
  precedes the first occurrence of a key consists of keys that stand before it.
\<close>

definition first_met_order :: "string list \<Rightarrow> string list \<Rightarrow> bool" where
  "first_met_order ks exts =
     (\<forall>A e B. ks = A @ e # B \<longrightarrow>
        (\<exists>pre post. exts = pre @ e # post \<and> e \<notin> set pre \<and> set pre \<subseteq> set A))"

text \<open>
  The extension \<open>e\<close> is the winner among \<open>exts\<close>: no extension occurs more often, and
  every extension first met before it occurs less often.
\<close>

definition winner :: "string list \<Rightarrow> string \<Rightarrow> bool" where
  "winner exts e =
     (\<exists>pre post. exts = pre @ e # post \<and> e \<notin> set pre
        \<and> (\<forall>e' \<in> set pre. count_list exts e' < count_list exts e)
        \<and> (\<forall>e' \<in> set exts. count_list exts e' \<le> count_list exts e))"

section \<open>Helper lemmas\<close>

lemma fold_append_concat:
  "fold (\<lambda>x acc. acc @ f x) xs acc = acc @ concat (map f xs)"
  by (induction xs arbitrary: acc) simp_all

lemma generateInstallation_loop_eq:
  "generateInstallation_loop ms content
     = content @ concat (map (\<lambda>m. install_block (DependencyManifest.type m)) ms)"
proof (induction ms arbitrary: content)
  case Nil
  show ?case by simp
next
  case (Cons m ms)
  show ?case
    by (cases "DependencyManifest.type m") (simp_all add: Cons.IH install_block_def)
qed

lemma nodes_with_depth_ge:
  "dn \<in> set (nodes_with_depth node d) \<Longrightarrow> d \<le> fst dn"
proof (induction node d arbitrary: dn rule: nodes_with_depth.induct)
  case (1 nm ty cs p d)
  show ?case
  proof (cases "dn = (d, DirectoryNode nm ty cs p)")
    case True
    then show ?thesis by simp
  next
    case False
    with "1.prems" obtain c where c: "c \<in> set cs" "ty = Directory"
      "dn \<in> set (nodes_with_depth c (d + 1))"
      by (auto split: if_splits)
    from "1.IH" [OF c(2) c(1) c(3)] show ?thesis by simp
  qed
qed

lemma filter_rendered_too_deep:
  assumes "limit < int d"
  shows "filter (rendered limit) (nodes_with_depth node d) = []"
proof -
  have "\<not> rendered limit dn" if "dn \<in> set (nodes_with_depth node d)" for dn
    using nodes_with_depth_ge [OF that] assms by (simp add: rendered_def)
  then show ?thesis by (simp add: filter_empty_conv)
qed

lemma formatTree_eq:
  "formatTree node depth limit
     = concat (map tree_line (filter (rendered limit) (nodes_with_depth node depth)))"
proof (induction node depth limit rule: formatTree.induct)
  case (1 nm ty cs p depth limit)
  show ?case
  proof (cases "int depth > limit")
    case True
    then show ?thesis
      using filter_rendered_too_deep [of limit depth "DirectoryNode nm ty cs p"]
      by simp
  next
    case False
    have kids: "formatTree c (depth + 1) limit
        = concat (map tree_line (filter (rendered limit) (nodes_with_depth c (depth + 1))))"
      if "c \<in> set cs" "ty = Directory" for c
      using "1.IH" [OF False refl refl refl that(2) that(1)] .
    have kids_all: "concat (map (\<lambda>c. formatTree c (depth + 1) limit) cs)
        = concat (map tree_line (filter (rendered limit)
            (concat (map (\<lambda>c. nodes_with_depth c (depth + 1)) cs))))"
      if "ty = Directory"
      using kids that by (induction cs) (simp_all add: filter_concat comp_def)
    have head: "filter (rendered limit) [(depth, DirectoryNode nm ty cs p)]
        = (if depth > 0 then [(depth, DirectoryNode nm ty cs p)] else [])"
      using False by (simp add: rendered_def)
    show ?thesis
    proof (cases "ty = Directory")
      case True
      have "formatTree (DirectoryNode nm ty cs p) depth limit
          = (if depth > 0 then tree_line (depth, DirectoryNode nm ty cs p) else [])
              @ concat (map (\<lambda>c. formatTree c (depth + 1) limit) cs)"
        using False True by (simp add: fold_append_concat tree_line_def Let_def)
      also have "\<dots> = concat (map tree_line
            (filter (rendered limit) [(depth, DirectoryNode nm ty cs p)]))
          @ concat (map tree_line (filter (rendered limit)
              (concat (map (\<lambda>c. nodes_with_depth c (depth + 1)) cs))))"
        by (simp only: kids_all [OF True] head) simp
      finally show ?thesis using True by simp
    next
      case dir: False
      have "formatTree (DirectoryNode nm ty cs p) depth limit
          = (if depth > 0 then tree_line (depth, DirectoryNode nm ty cs p) else [])"
        using False dir by (simp add: tree_line_def Let_def)
      also have "\<dots> = concat (map tree_line
            (filter (rendered limit) [(depth, DirectoryNode nm ty cs p)]))"
        by (simp only: head) simp
      finally show ?thesis using dir by simp
    qed
  qed
qed

subsection \<open>Scanning\<close>

lemma scan_file:
  "statSync env p = Inr stats \<Longrightarrow> isFile stats \<Longrightarrow>
   scanDirectoryStructure env p md cd = Inr (DirectoryNode (basename p) File [] p)"
  by (subst scanDirectoryStructure.simps) simp

lemma scan_deep:
  "statSync env p = Inr stats \<Longrightarrow> \<not> isFile stats \<Longrightarrow> cd \<ge> md \<Longrightarrow>
   scanDirectoryStructure env p md cd = Inr (DirectoryNode (basename p) Directory [] p)"
  by (subst scanDirectoryStructure.simps) simp

lemma fold_skip_concat:
  "fold (\<lambda>x acc. if skip x then acc else (case f x of Inl e \<Rightarrow> acc | Inr y \<Rightarrow> acc @ [y])) xs acc
   = acc @ concat (map (\<lambda>x. case f x of Inl e \<Rightarrow> [] | Inr y \<Rightarrow> [y]) (filter (\<lambda>x. \<not> skip x) xs))"
  by (induction xs arbitrary: acc) (auto split: sum.splits)

lemma scan_dir:
  assumes "statSync env p = Inr stats" "\<not> isFile stats" "cd < md"
    "readdirSync env p = Inr entries"
  shows "scanDirectoryStructure env p md cd
    = Inr (DirectoryNode (basename p) Directory
        (concat (map (\<lambda>entry. case scanDirectoryStructure env (join [p, entry]) md (cd + 1) of
                                Inl e \<Rightarrow> [] | Inr childNode \<Rightarrow> [childNode])
           (filter (\<lambda>entry. \<not> (startsWith entry ''.'' \<and> entry \<noteq> ''.gitignore'')
                      \<and> entry \<noteq> ''node_modules'' \<and> entry \<noteq> ''dist'') entries)))
        p)"
proof -
  have skip: "(\<lambda>entry children.
                        if startsWith entry ''.'' \<and> entry \<noteq> ''.gitignore'' then children
                        else if entry = ''node_modules'' then children
                        else if entry = ''dist'' then children
                        else
                          (case scanDirectoryStructure env (join [p, entry]) md
                                  (cd + 1) of
                             Inl err \<Rightarrow> children
                           | Inr childNode \<Rightarrow> children @ [childNode]))
    = (\<lambda>entry children. if (startsWith entry ''.'' \<and> entry \<noteq> ''.gitignore'') \<or> entry = ''node_modules'' \<or> entry = ''dist'' then children else (case scanDirectoryStructure env (join [p, entry]) md
                                  (cd + 1) of
                             Inl err \<Rightarrow> children
                           | Inr childNode \<Rightarrow> children @ [childNode]))"
    by (intro ext) simp
  show ?thesis
    using assms
    apply (subst scanDirectoryStructure.simps)
    apply (simp only: skip fold_skip_concat)
    apply (simp add: de_Morgan_disj)
    done
qed

subsection \<open>Configuration and manifests\<close>

lemma mergeWithDefaults_empty: "mergeWithDefaults (JObj []) = Inr default_config"
  by (simp add: mergeWithDefaults_def default_config_def js_or_def nullish_def)

lemma js_or_defined: "defined b \<Longrightarrow> defined (js_or a b)"
  by (cases a) (auto simp: js_or_def defined_def)

lemma nullish_defined: "defined b \<Longrightarrow> defined (nullish a b)"
  by (auto simp: nullish_def defined_def)

lemma mergeWithDefaults_defined:
  assumes "mergeWithDefaults config = Inr c"
  shows "defined (excludeSections c) \<and> defined (customContent c)
     \<and> defined (maxDepth c) \<and> defined (includeHiddenFiles c)"
proof -
  have d: "defined (JArr [])" "defined (JObj [])" "defined (JNum 3)" "defined (JBool False)"
    by (simp_all add: defined_def)
  from assms show ?thesis
    by (auto simp: mergeWithDefaults_def js_or_defined nullish_defined d split: sum.splits)
qed

lemma loadConfig_cases:
  "loadConfig env rootPath = Inr default_config
   \<or> (\<exists>content userConfig c.
         existsSync env (join [rootPath, ''.readmerc.json''])
       \<and> readFileSync env (join [rootPath, ''.readmerc.json'']) = Inr content
       \<and> JSON_parse env content = Inr userConfig
       \<and> mergeWithDefaults userConfig = Inr c
       \<and> loadConfig env rootPath = Inr c)"
  by (auto simp: loadConfig_def read_config_def mergeWithDefaults_empty Let_def split: sum.splits)

lemma loadConfig_total:
  "\<exists>c. loadConfig env rootPath = Inr c
     \<and> defined (excludeSections c) \<and> defined (customContent c)
     \<and> defined (maxDepth c) \<and> defined (includeHiddenFiles c)"
proof -
  have dd: "defined (excludeSections default_config) \<and> defined (customContent default_config)
     \<and> defined (maxDepth default_config) \<and> defined (includeHiddenFiles default_config)"
    by (simp add: default_config_def defined_def)
  from loadConfig_cases [of env rootPath] show ?thesis
  proof
    assume "loadConfig env rootPath = Inr default_config"
    with dd show ?thesis by blast
  next
    assume "\<exists>content userConfig c.
         existsSync env (join [rootPath, ''.readmerc.json''])
       \<and> readFileSync env (join [rootPath, ''.readmerc.json'']) = Inr content
       \<and> JSON_parse env content = Inr userConfig
       \<and> mergeWithDefaults userConfig = Inr c
       \<and> loadConfig env rootPath = Inr c"
    then obtain u c where "mergeWithDefaults u = Inr c" "loadConfig env rootPath = Inr c"
      by blast
    with mergeWithDefaults_defined [of u c] show ?thesis by blast
  qed
qed

lemma loadConfig_absent:
  "\<not> existsSync env (join [rootPath, ''.readmerc.json'']) \<Longrightarrow>
   loadConfig env rootPath = Inr default_config"
  by (simp add: loadConfig_def mergeWithDefaults_empty)

lemma loadConfig_unreadable:
  "readFileSync env (join [rootPath, ''.readmerc.json'']) = Inl e \<Longrightarrow>
   loadConfig env rootPath = Inr default_config"
  by (simp add: loadConfig_def read_config_def mergeWithDefaults_empty Let_def)

lemma loadConfig_unparsable:
  "readFileSync env (join [rootPath, ''.readmerc.json'']) = Inr content \<Longrightarrow>
   JSON_parse env content = Inl e \<Longrightarrow>
   loadConfig env rootPath = Inr default_config"
  by (simp add: loadConfig_def read_config_def mergeWithDefaults_empty Let_def)

lemma match_here_nonempty: "match_here key s = Some v \<Longrightarrow> v \<noteq> []"
  by (auto simp: match_here_def Let_def split: if_splits list.splits)

lemma regex_match_nonempty: "regex_match key s = Some v \<Longrightarrow> v \<noteq> []"
  by (induction s) (auto simp: match_here_nonempty split: option.splits)

lemma read_package_json_shape:
  "read_package_json env rootPath q = Inr m \<Longrightarrow>
   DependencyManifest.type m = Npm
   \<and> js_or (projectName m) (JStr (basename rootPath)) = projectName m
   \<and> js_or (DependencyManifest.description m) (JStr '''') = DependencyManifest.description m"
  by (auto simp: read_package_json_def js_or_def split: sum.splits)

lemma read_requirements_shape:
  "read_requirements env rootPath q = Inr m \<Longrightarrow>
   DependencyManifest.type m = Pip
   \<and> js_or (projectName m) (JStr (basename rootPath)) = projectName m
   \<and> js_or (DependencyManifest.description m) (JStr '''') = DependencyManifest.description m"
  by (auto simp: read_requirements_def js_or_def Let_def split: sum.splits)

lemma read_cargo_toml_shape:
  "read_cargo_toml env rootPath q = Inr m \<Longrightarrow>
   DependencyManifest.type m = Cargo
   \<and> js_or (projectName m) (JStr (basename rootPath)) = projectName m
   \<and> js_or (DependencyManifest.description m) (JStr '''') = DependencyManifest.description m"
  by (auto simp: read_cargo_toml_def js_or_def Let_def dest: regex_match_nonempty
        split: sum.splits option.splits)

lemma push_if_read_cases:
  "push_if_read env q attempt ms = ms
   \<or> (\<exists>m. existsSync env q \<and> attempt = Inr m \<and> push_if_read env q attempt ms = ms @ [m])"
  by (auto simp: push_if_read_def split: sum.splits)

lemma findDependencyManifests_eq:
  "findDependencyManifests env rootPath =
     push_if_read env (join [rootPath, ''package.json''])
       (read_package_json env rootPath (join [rootPath, ''package.json''])) []
   @ push_if_read env (join [rootPath, ''requirements.txt''])
       (read_requirements env rootPath (join [rootPath, ''requirements.txt''])) []
   @ push_if_read env (join [rootPath, ''Cargo.toml''])
       (read_cargo_toml env rootPath (join [rootPath, ''Cargo.toml''])) []"
  by (simp add: findDependencyManifests_def push_if_read_def Let_def split: sum.splits)

lemma push_if_read_member:
  "m \<in> set (push_if_read env q attempt []) \<Longrightarrow> attempt = Inr m"
  by (cases attempt; cases "existsSync env q") (simp_all add: push_if_read_def)

lemma manifest_fallbacks:
  assumes "m \<in> set (findDependencyManifests env rootPath)"
  shows "js_or (projectName m) (JStr (basename rootPath)) = projectName m
     \<and> js_or (DependencyManifest.description m) (JStr '''') = DependencyManifest.description m"
proof -
  from assms consider
      "read_package_json env rootPath (join [rootPath, ''package.json'']) = Inr m"
    | "read_requirements env rootPath (join [rootPath, ''requirements.txt'']) = Inr m"
    | "read_cargo_toml env rootPath (join [rootPath, ''Cargo.toml'']) = Inr m"
    by (auto simp: findDependencyManifests_eq dest: push_if_read_member)
  then show ?thesis
  proof cases
    case 1
    from read_package_json_shape [OF this] show ?thesis by simp
  next
    case 2
    from read_requirements_shape [OF this] show ?thesis by simp
  next
    case 3
    from read_cargo_toml_shape [OF this] show ?thesis by simp
  qed
qed

lemma manifest_order:
  "subseq (map DependencyManifest.type (findDependencyManifests env rootPath)) [Npm, Pip, Cargo]"
proof -
  have a: "map DependencyManifest.type (push_if_read env q (read_package_json env rootPath q) []) = []
     \<or> map DependencyManifest.type (push_if_read env q (read_package_json env rootPath q) []) = [Npm]" for q
    using read_package_json_shape by (auto simp: push_if_read_def split: sum.splits)
  have b: "map DependencyManifest.type (push_if_read env q (read_requirements env rootPath q) []) = []
     \<or> map DependencyManifest.type (push_if_read env q (read_requirements env rootPath q) []) = [Pip]" for q
    using read_requirements_shape by (auto simp: push_if_read_def split: sum.splits)
  have c: "map DependencyManifest.type (push_if_read env q (read_cargo_toml env rootPath q) []) = []
     \<or> map DependencyManifest.type (push_if_read env q (read_cargo_toml env rootPath q) []) = [Cargo]" for q
    using read_cargo_toml_shape by (auto simp: push_if_read_def split: sum.splits)
  show ?thesis
    using a [of "join [rootPath, ''package.json'']"] b [of "join [rootPath, ''requirements.txt'']"]
      c [of "join [rootPath, ''Cargo.toml'']"]
    by (auto simp: findDependencyManifests_eq)
qed

lemma scan_total:
  "statSync env p = Inr stats \<Longrightarrow> \<exists>n. scanDirectoryStructure env p md cd = Inr n"
  by (subst scanDirectoryStructure.simps) (simp split: sum.splits)

lemma scan_fails:
  "statSync env p = Inl e \<Longrightarrow> scanDirectoryStructure env p md cd = Inl e"
  by (subst scanDirectoryStructure.simps) simp

lemma analyzeProject_name:
  assumes "analyzeProject env rootPath = Inr meta"
  shows "ProjectMetadata.name meta
      = (case findDependencyManifests env rootPath of
           [] \<Rightarrow> JStr (basename rootPath) | m # ms \<Rightarrow> projectName m)
    \<and> ProjectMetadata.description meta
      = (case findDependencyManifests env rootPath of
           [] \<Rightarrow> JStr '''' | m # ms \<Rightarrow> DependencyManifest.description m)"
proof (cases "findDependencyManifests env rootPath")
  case Nil
  with assms show ?thesis
    by (auto simp: analyzeProject_def Let_def js_or_def split: sum.splits)
next
  case (Cons m ms)
  then have "m \<in> set (findDependencyManifests env rootPath)" by simp
  from manifest_fallbacks [OF this] Cons assms show ?thesis
    by (auto simp: analyzeProject_def Let_def split: sum.splits)
qed

subsection \<open>Lines, trimming, assembling\<close>

lemma split_nonempty: "split s sep \<noteq> []"
  by (induction s) (auto split: list.splits)

lemma split_no_sep: "l \<in> set (split s sep) \<Longrightarrow> sep \<notin> set l"
proof (induction s arbitrary: l)
  case Nil
  then show ?case by simp
next
  case (Cons c cs)
  show ?case
  proof (cases "c = sep")
    case True
    with Cons show ?thesis by auto
  next
    case False
    then obtain q qs where q: "split cs sep = q # qs"
      using split_nonempty [of cs sep] by (cases "split cs sep") auto
    with False Cons.prems have "l = c # q \<or> l \<in> set qs" by auto
    then show ?thesis
    proof
      assume "l = c # q"
      moreover have "sep \<notin> set q" using Cons.IH [of q] q by simp
      ultimately show ?thesis using False by auto
    next
      assume "l \<in> set qs"
      with Cons.IH [of l] q show ?thesis by simp
    qed
  qed
qed

lemma join_with_Cons:
  "ys \<noteq> [] \<Longrightarrow> join_with sep (x # ys) = x @ sep @ join_with sep ys"
  by (cases ys) simp_all

lemma join_with_split: "join_with [sep] (split s sep) = s"
proof (induction s)
  case Nil
  show ?case by simp
next
  case (Cons c cs)
  obtain q qs where q: "split cs sep = q # qs"
    using split_nonempty [of cs sep] by (cases "split cs sep") auto
  show ?case
  proof (cases "c = sep")
    case True
    with Cons show ?thesis by (simp add: join_with_Cons split_nonempty)
  next
    case False
    with Cons q show ?thesis by (cases qs) auto
  qed
qed

lemma trim_no_trailing_space: "trim s = [] \<or> \<not> is_space (last (trim s))"
proof (cases "dropWhile is_space (rev (dropWhile is_space s))")
  case Nil
  then show ?thesis by (simp add: trim_def)
next
  case (Cons c cs)
  then have "\<not> is_space c"
    using hd_dropWhile [of is_space "rev (dropWhile is_space s)"] by auto
  with Cons show ?thesis by (simp add: trim_def)
qed

lemma assembleSections_loop_eq:
  "assembleSections_loop sections keys result
     = result @ concat (map (\<lambda>key. the (map_of sections key))
         (filter (\<lambda>key. map_of sections key \<noteq> None \<and> map_of sections key \<noteq> Some '''') keys))"
  by (induction keys arbitrary: result) (auto split: option.splits)

subsection \<open>Exclusion and custom content\<close>

lemma map_of_rev_distinct:
  "distinct (map fst xs) \<Longrightarrow> map_of (rev xs) k = map_of xs k"
proof (induction xs)
  case Nil
  show ?case by simp
next
  case (Cons kv xs)
  obtain key v where kv: "kv = (key, v)" by (cases kv)
  from Cons.prems have "key \<notin> fst ` set xs" by (simp add: kv)
  then have none: "map_of xs key = None" by (simp add: map_of_eq_None_iff)
  from Cons.prems have "map_of (rev xs) k = map_of xs k" by (simp add: Cons.IH)
  with none show ?case
    by (auto simp: kv map_add_def split: option.splits)
qed

lemma assign_other: "k \<noteq> key \<Longrightarrow> map_of (assign key v obj) k = map_of obj k"
  by (simp add: assign_def update_conv')

lemma assign_same: "key \<noteq> ''__proto__'' \<Longrightarrow> map_of (assign key v obj) key = Some v"
  by (simp add: assign_def update_conv')

lemma exclusion_fold_excluded:
  "k \<in> set excluded \<Longrightarrow>
   map_of (fold (\<lambda>(key, v) result.
             if key \<notin> set excluded then assign key v result else result)
       sections acc) k
   = map_of acc k"
proof (induction sections arbitrary: acc)
  case Nil
  show ?case by simp
next
  case (Cons kv sections)
  obtain key v where kv: "kv = (key, v)" by (cases kv)
  show ?case
  proof (cases "key \<in> set excluded")
    case True
    with Cons show ?thesis by (simp add: kv)
  next
    case False
    with Cons.prems have "k \<noteq> key" by auto
    with False Cons show ?thesis by (simp add: kv assign_other)
  qed
qed

lemma exclusion_fold_map_of:
  "k \<noteq> ''__proto__'' \<Longrightarrow> k \<notin> set excluded \<Longrightarrow>
   map_of (fold (\<lambda>(key, v) result.
             if key \<notin> set excluded then assign key v result else result)
       sections acc) k
   = (case map_of (rev sections) k of Some v \<Rightarrow> Some v | None \<Rightarrow> map_of acc k)"
proof (induction sections arbitrary: acc)
  case Nil
  show ?case by simp
next
  case (Cons kv sections)
  obtain key v where kv: "kv = (key, v)" by (cases kv)
  show ?case
  proof (cases "k = key")
    case True
    with Cons.prems have "map_of (assign key v acc) k = Some v"
      by (simp add: assign_same)
    with True Cons show ?thesis
      by (simp add: kv map_add_def split: option.splits)
  next
    case False
    then have "map_of (assign key v acc) k = map_of acc k"
      by (simp add: assign_other)
    with False Cons show ?thesis
      by (simp add: kv map_add_def split: option.splits)
  qed
qed

lemma custom_fold_untouched:
  "k \<notin> fst ` set (filter (\<lambda>(key, v). v \<noteq> '''') custom) \<Longrightarrow>
   map_of (fold (\<lambda>(key, v) result. if v \<noteq> '''' then assign key v result else result)
       custom acc) k
   = map_of acc k"
proof (induction custom arbitrary: acc)
  case Nil
  show ?case by simp
next
  case (Cons kv custom)
  obtain key v where kv: "kv = (key, v)" by (cases kv)
  show ?case
  proof (cases "v = ''''")
    case True
    with Cons show ?thesis by (simp add: kv)
  next
    case False
    with Cons.prems have ne: "k \<noteq> key" by (auto simp: kv)
    from False Cons.prems have
      "k \<notin> fst ` set (filter (\<lambda>(key, v). v \<noteq> '''') custom)"
      by (simp add: kv)
    from Cons.IH [OF this] False ne show ?thesis by (simp add: kv assign_other)
  qed
qed

lemma custom_fold_map_of:
  "k \<noteq> ''__proto__'' \<Longrightarrow>
   map_of (fold (\<lambda>(key, v) result. if v \<noteq> '''' then assign key v result else result)
       custom acc) k
   = (case map_of (rev (filter (\<lambda>(key, v). v \<noteq> '''') custom)) k of
        Some v \<Rightarrow> Some v | None \<Rightarrow> map_of acc k)"
proof (induction custom arbitrary: acc)
  case Nil
  show ?case by simp
next
  case (Cons kv custom)
  obtain key v where kv: "kv = (key, v)" by (cases kv)
  show ?case
  proof (cases "v = ''''")
    case True
    with Cons show ?thesis by (simp add: kv)
  next
    case False
    show ?thesis
    proof (cases "k = key")
      case True
      with Cons.prems have "map_of (assign key v acc) k = Some v"
        by (simp add: assign_same)
      with True False Cons show ?thesis
        by (simp add: kv map_add_def split: option.splits)
    next
      case ne: False
      then have "map_of (assign key v acc) k = map_of acc k"
        by (simp add: assign_other)
      with ne False Cons show ?thesis
        by (simp add: kv map_add_def split: option.splits)
    qed
  qed
qed

lemma map_of_filter_nonempty:
  assumes "distinct (map fst custom)"
  shows "map_of (rev (filter (\<lambda>(key, v). v \<noteq> '''') custom)) k
    = (case map_of custom k of Some v \<Rightarrow> if v \<noteq> '''' then Some v else None | None \<Rightarrow> None)"
proof -
  have d: "distinct (map fst (filter (\<lambda>(key, v). v \<noteq> '''') custom))"
    using assms by (rule distinct_map_filter)
  have "map_of (rev (filter (\<lambda>(key, v). v \<noteq> '''') custom)) k
      = map_of (filter (\<lambda>(key, v). v \<noteq> '''') custom) k"
    using d by (rule map_of_rev_distinct)
  also have "\<dots> = (case map_of custom k of Some v \<Rightarrow> if v \<noteq> '''' then Some v else None
                     | None \<Rightarrow> None)"
    using assms
  proof (induction custom)
    case Nil
    show ?case by simp
  next
    case (Cons kv custom)
    obtain key v where kv: "kv = (key, v)" by (cases kv)
    from Cons.prems have nk: "key \<notin> fst ` set custom" by (simp add: kv)
    then have none: "map_of custom key = None" by (simp add: map_of_eq_None_iff)
    from Cons.prems have "distinct (map fst custom)" by simp
    note IH = Cons.IH [OF this]
    show ?case
      using IH none by (auto simp: kv split: option.splits)
  qed
  finally show ?thesis .
qed

lemma applyCustomContent_map_of:
  assumes "distinct (map fst custom)" and "k \<noteq> ''__proto__''"
  shows "map_of (applyCustomContent sections custom) k
    = (case map_of custom k of
         Some v \<Rightarrow> if v \<noteq> '''' then Some v else map_of sections k
       | None \<Rightarrow> map_of sections k)"
  by (simp add: applyCustomContent_def custom_fold_map_of [OF assms(2)]
        map_of_filter_nonempty [OF assms(1)] split: option.splits)

lemma applyCustomContent_untouched:
  assumes "distinct (map fst custom)"
    and "map_of custom k = None \<or> map_of custom k = Some ''''"
  shows "map_of (applyCustomContent sections custom) k = map_of sections k"
proof -
  have "k \<notin> fst ` set (filter (\<lambda>(key, v). v \<noteq> '''') custom)"
  proof
    assume "k \<in> fst ` set (filter (\<lambda>(key, v). v \<noteq> '''') custom)"
    then obtain v where v: "(k, v) \<in> set custom" "v \<noteq> ''''" by auto
    with assms(1) have "map_of custom k = Some v" by simp
    with assms(2) v(2) show False by auto
  qed
  then show ?thesis
    by (simp add: applyCustomContent_def custom_fold_untouched)
qed

lemma applySectionExclusion_dropped:
  "List.member excluded k \<Longrightarrow> map_of (applySectionExclusion sections excluded) k = None"
  by (simp add: applySectionExclusion_def exclusion_fold_excluded)

lemma applySectionExclusion_kept:
  "distinct (map fst sections) \<Longrightarrow> \<not> List.member excluded k \<Longrightarrow> k \<noteq> ''__proto__'' \<Longrightarrow>
   map_of (applySectionExclusion sections excluded) k = map_of sections k"
  by (simp add: applySectionExclusion_def exclusion_fold_map_of map_of_rev_distinct
        split: option.splits)

subsection \<open>The pip manifest\<close>

lemma push_if_read_Inr:
  "existsSync env q \<Longrightarrow> push_if_read env q (Inr m) [] = [m]"
  by (simp add: push_if_read_def)

lemma push_if_read_type:
  assumes "\<And>m. attempt = Inr m \<Longrightarrow> DependencyManifest.type m = t"
  shows "filter (\<lambda>m. DependencyManifest.type m = t') (push_if_read env q attempt [])
     = (if t = t' then push_if_read env q attempt [] else [])"
  using assms by (cases attempt; cases "existsSync env q") (simp_all add: push_if_read_def)

subsection \<open>The tally of extensions and its maximum\<close>

text \<open>
  Every key of the tally begins with a dot: none is an array index or \<open>__proto__\<close>, so
  each assignment to the tally creates or replaces an own property.
\<close>

lemma extname_dot: "extname p = '''' \<or> hd (extname p) = CHR ''.''"
proof (cases "dropWhile (\<lambda>c. c \<noteq> CHR ''.'') (rev (basename p))")
  case Nil
  have "extname p = ''''"
    unfolding extname_def Let_def Nil by simp
  then show ?thesis by simp
next
  case (Cons dot stem)
  have "dot = CHR ''.''"
    using hd_dropWhile [of "\<lambda>c. c \<noteq> CHR ''.''" "rev (basename p)"] Cons by auto
  with Cons show ?thesis by (simp add: extname_def Let_def)
qed

lemma lower_char_dot: "lower_char CHR ''.'' = CHR ''.''"
  by (simp add: lower_char_def)

lemma extensions_dot: "e \<in> set (extensions files) \<Longrightarrow> hd e = CHR ''.''"
proof -
  assume "e \<in> set (extensions files)"
  then obtain f where e: "e = toLowerCase (extname f)" "e \<noteq> ''''"
    by (auto simp: extensions_def)
  then have "extname f \<noteq> ''''" by (auto simp: toLowerCase_def)
  with extname_dot [of f] have "hd (extname f) = CHR ''.''" by simp
  with \<open>extname f \<noteq> ''''\<close> e(1) show ?thesis
    by (cases "extname f") (simp_all add: toLowerCase_def lower_char_dot)
qed

lemma extensions_not_proto: "e \<in> set (extensions files) \<Longrightarrow> e \<noteq> ''__proto__''"
  using extensions_dot [of e files] by auto

lemma extensionCounts_loop_fold:
  "extensionCounts_loop files acc = fold tally (extensions files) acc"
proof (induction files arbitrary: acc)
  case Nil
  show ?case by (simp add: extensions_def)
next
  case (Cons f files)
  have same: "(case map_of acc e of None \<Rightarrow> 0 | Some n \<Rightarrow> if n = 0 then 0 else n)
      = (case map_of acc e of None \<Rightarrow> 0 | Some n \<Rightarrow> n)" for e :: string
    by (simp split: option.splits)
  have ext: "extensions (f # files)
      = (if toLowerCase (extname f) \<noteq> '''' then [toLowerCase (extname f)] else [])
          @ extensions files"
    by (simp add: extensions_def)
  show ?case
    by (simp add: Cons.IH ext same tally_def Let_def)
qed

lemma tally_keys:
  "map fst (tally e al) = (if e \<in> set (map fst al) then map fst al else map fst al @ [e])"
  by (simp add: tally_def update_keys)

lemma tally_map_of:
  "map_of (tally e al) e'
     = (if e' = e then Some ((case map_of al e of None \<Rightarrow> 0 | Some n \<Rightarrow> n) + 1)
        else map_of al e')"
  by (simp add: tally_def update_conv')

lemma first_met_order_snoc_old:
  assumes "first_met_order ks exts"
  shows "first_met_order ks (exts @ [e])"
  unfolding first_met_order_def
proof (intro allI impI)
  fix A x B
  assume "ks = A @ x # B"
  with assms obtain pre post where
    p: "exts = pre @ x # post" "x \<notin> set pre" "set pre \<subseteq> set A"
    unfolding first_met_order_def by blast
  then have "exts @ [e] = pre @ x # (post @ [e])" by simp
  with p show "\<exists>pre post. exts @ [e] = pre @ x # post \<and> x \<notin> set pre \<and> set pre \<subseteq> set A"
    by blast
qed

lemma first_met_order_snoc_new:
  assumes "first_met_order ks exts" and "set ks = set exts" and "e \<notin> set exts"
  shows "first_met_order (ks @ [e]) (exts @ [e])"
  unfolding first_met_order_def
proof (intro allI impI)
  fix A x B
  assume eq: "ks @ [e] = A @ x # B"
  show "\<exists>pre post. exts @ [e] = pre @ x # post \<and> x \<notin> set pre \<and> set pre \<subseteq> set A"
  proof (cases B rule: rev_cases)
    case Nil
    with eq have "A = ks" "x = e" by simp_all
    with assms show ?thesis by auto
  next
    case (snoc B' b)
    with eq have ks: "ks = A @ x # B'" by simp
    with assms(1) obtain pre post where
      p: "exts = pre @ x # post" "x \<notin> set pre" "set pre \<subseteq> set A"
      unfolding first_met_order_def by blast
    then have "exts @ [e] = pre @ x # (post @ [e])" by simp
    with p show ?thesis by blast
  qed
qed

lemma fold_tally_invariant:
  "distinct (map fst (fold tally exts []))
   \<and> set (map fst (fold tally exts [])) = set exts
   \<and> (\<forall>e \<in> set exts. map_of (fold tally exts []) e = Some (count_list exts e))
   \<and> first_met_order (map fst (fold tally exts [])) exts"
proof (induction exts rule: rev_induct)
  case Nil
  show ?case by (simp add: first_met_order_def)
next
  case (snoc e exts)
  let ?al = "fold tally exts []"
  from snoc have d: "distinct (map fst ?al)"
    and k: "set (map fst ?al) = set exts"
    and c: "\<forall>x \<in> set exts. map_of ?al x = Some (count_list exts x)"
    and o: "first_met_order (map fst ?al) exts"
    by simp_all
  have step: "fold tally (exts @ [e]) [] = tally e ?al" by simp
  have d': "distinct (map fst (tally e ?al))"
    using d by (simp add: tally_keys)
  have k': "set (map fst (tally e ?al)) = set (exts @ [e])"
    using k by (auto simp: tally_keys)
  have c': "map_of (tally e ?al) x = Some (count_list (exts @ [e]) x)"
    if "x \<in> set (exts @ [e])" for x
  proof (cases "x = e")
    case True
    show ?thesis
    proof (cases "e \<in> set exts")
      case True
      with c \<open>x = e\<close> show ?thesis by (simp add: tally_map_of)
    next
      case False
      with k have "map_of ?al e = None"
        by (metis map_of_eq_None_iff set_map)
      with False \<open>x = e\<close> show ?thesis by (simp add: tally_map_of)
    qed
  next
    case False
    with that have "x \<in> set exts" by simp
    with c False show ?thesis by (simp add: tally_map_of)
  qed
  have o': "first_met_order (map fst (tally e ?al)) (exts @ [e])"
  proof (cases "e \<in> set exts")
    case True
    with k have "map fst (tally e ?al) = map fst ?al" by (simp add: tally_keys)
    with first_met_order_snoc_old [OF o] show ?thesis by simp
  next
    case False
    with k have "map fst (tally e ?al) = map fst ?al @ [e]" by (simp add: tally_keys)
    with first_met_order_snoc_new [OF o k False] show ?thesis by simp
  qed
  from d' k' c' o' show ?case unfolding step by blast
qed

lemma primaryExt_loop_result:
  "(primaryExt_loop al m p = p \<and> (\<forall>ec \<in> set al. snd ec \<le> m))
   \<or> (\<exists>A c B. al = A @ (primaryExt_loop al m p, c) # B \<and> m < c
         \<and> (\<forall>ec \<in> set A. snd ec < c) \<and> (\<forall>ec \<in> set B. snd ec \<le> c))"
proof (induction al m p rule: primaryExt_loop.induct)
  case (1 m p)
  show ?case by simp
next
  case (2 ext count entries m p)
  show ?case
  proof (cases "count > m")
    case True
    let ?r = "primaryExt_loop entries count ext"
    from "2.IH"(1) [OF True] consider
        "?r = ext" "\<forall>ec \<in> set entries. snd ec \<le> count"
      | A c B where "entries = A @ (?r, c) # B" "count < c"
          "\<forall>ec \<in> set A. snd ec < c" "\<forall>ec \<in> set B. snd ec \<le> c"
      by blast
    then show ?thesis
    proof cases
      case 1
      then have "(ext, count) # entries = [] @ (?r, count) # entries" by simp
      with 1 True show ?thesis
        by (intro disjI2 exI [of _ "[]"] exI [of _ count] exI [of _ entries]) simp
    next
      case 2
      then have "(ext, count) # entries = ((ext, count) # A) @ (?r, c) # B" by simp
      with 2 True show ?thesis
        by (intro disjI2 exI [of _ "(ext, count) # A"] exI [of _ c] exI [of _ B]) auto
    qed
  next
    case False
    let ?r = "primaryExt_loop entries m p"
    from "2.IH"(2) [OF False] consider
        "?r = p" "\<forall>ec \<in> set entries. snd ec \<le> m"
      | A c B where "entries = A @ (?r, c) # B" "m < c"
          "\<forall>ec \<in> set A. snd ec < c" "\<forall>ec \<in> set B. snd ec \<le> c"
      by blast
    then show ?thesis
    proof cases
      case 1
      with False show ?thesis by auto
    next
      case 2
      then have "(ext, count) # entries = ((ext, count) # A) @ (?r, c) # B" by simp
      with 2 False show ?thesis
        by (intro disjI2 exI [of _ "(ext, count) # A"] exI [of _ c] exI [of _ B]) auto
    qed
  qed
qed

lemma primaryExt_winner:
  assumes "exts \<noteq> []"
  shows "winner exts (primaryExt_loop (fold tally exts []) 0 '''')"
proof -
  let ?al = "fold tally exts []"
  let ?r = "primaryExt_loop ?al 0 ''''"
  note inv = fold_tally_invariant [of exts]
  from inv have d: "distinct (map fst ?al)"
    and k: "set (map fst ?al) = set exts"
    and c: "\<forall>e \<in> set exts. map_of ?al e = Some (count_list exts e)"
    and o: "first_met_order (map fst ?al) exts"
    by simp_all
  have cnt: "n = count_list exts e" if "(e, n) \<in> set ?al" for e n
  proof -
    from that have "e \<in> set exts" using k by force
    with c have "map_of ?al e = Some (count_list exts e)" by simp
    moreover from d that have "map_of ?al e = Some n" by simp
    ultimately show ?thesis by simp
  qed
  have pos: "0 < n" if "(e, n) \<in> set ?al" for e n
  proof -
    from that have "e \<in> set exts" using k by force
    then have "count_list exts e \<noteq> 0" by (simp add: count_list_0_iff)
    with cnt [OF that] show ?thesis by simp
  qed
  from assms k obtain e0 n0 where "(e0, n0) \<in> set ?al"
    by (cases ?al) auto
  with pos have "\<not> (\<forall>ec \<in> set ?al. snd ec \<le> 0)" by force
  with primaryExt_loop_result [of ?al 0 "''''"] obtain A n B where
    al: "?al = A @ (?r, n) # B" and A: "\<forall>ec \<in> set A. snd ec < n"
    and B: "\<forall>ec \<in> set B. snd ec \<le> n"
    by blast
  have mem: "x \<in> set ?al" if "x \<in> set A \<or> x = (?r, n) \<or> x \<in> set B" for x
  proof -
    from that have "x \<in> set (A @ (?r, n) # B)" by auto
    with al show ?thesis by metis
  qed
  have split_al: "x \<in> set A \<or> x = (?r, n) \<or> x \<in> set B" if "x \<in> set ?al" for x
  proof -
    from that al have "x \<in> set (A @ (?r, n) # B)" by metis
    then show ?thesis by auto
  qed
  have n: "n = count_list exts ?r" using cnt [of ?r n] mem [of "(?r, n)"] by blast
  have "map fst (A @ (?r, n) # B) = map fst A @ ?r # map fst B" by simp
  with al have "map fst ?al = map fst A @ ?r # map fst B" by metis
  with o obtain pre post where
    p: "exts = pre @ ?r # post" "?r \<notin> set pre" "set pre \<subseteq> set (map fst A)"
    unfolding first_met_order_def by blast
  have less: "count_list exts e' < count_list exts ?r" if "e' \<in> set pre" for e'
  proof -
    from that p(3) obtain n' where in_A: "(e', n') \<in> set A" by force
    with mem have "(e', n') \<in> set ?al" by blast
    from cnt [OF this] A in_A n show ?thesis by force
  qed
  have le: "count_list exts e' \<le> count_list exts ?r" if "e' \<in> set exts" for e'
  proof -
    from that k obtain n' where in_al: "(e', n') \<in> set ?al" by force
    note n' = cnt [OF in_al]
    from split_al [OF in_al]
    have "(e', n') \<in> set A \<or> (e', n') = (?r, n) \<or> (e', n') \<in> set B" .
    then show ?thesis using A B n n' by force
  qed
  from p(1,2) less le show ?thesis unfolding winner_def by blast
qed

lemma languageMap_labels: "map_of languageMap e = Some label \<Longrightarrow> label \<noteq> ''''"
proof -
  assume "map_of languageMap e = Some label"
  then have "(e, label) \<in> set languageMap" by (rule map_of_SomeD)
  moreover have "\<forall>kv \<in> set languageMap. snd kv \<noteq> ''''"
    by (simp add: languageMap_def)
  ultimately show ?thesis by force
qed

lemma detectLanguage_label:
  "detectLanguage files
     = (case map_of languageMap (primaryExt_loop (fold tally (extensions files) []) 0 '''') of
          None \<Rightarrow> ''Unknown'' | Some label \<Rightarrow> label)"
proof (cases "map_of languageMap (primaryExt_loop (fold tally (extensions files) []) 0 '''')")
  case None
  then show ?thesis
    by (simp add: detectLanguage_def extensionCounts_loop_fold Let_def)
next
  case (Some label)
  with languageMap_labels [OF Some] show ?thesis
    by (simp add: detectLanguage_def extensionCounts_loop_fold Let_def)
qed

lemma detectLanguage_nonempty: "detectLanguage files \<noteq> ''''"
  by (simp add: detectLanguage_def Let_def split: option.splits)

lemma primaryExt_member:
  "primaryExt_loop (fold tally exts []) 0 '''' = '''' 
   \<or> primaryExt_loop (fold tally exts []) 0 '''' \<in> set exts"
proof -
  let ?al = "fold tally exts []"
  from primaryExt_loop_result [of ?al 0 "''''"] show ?thesis
  proof
    assume "primaryExt_loop ?al 0 '''' = '''' \<and> (\<forall>ec \<in> set ?al. snd ec \<le> 0)"
    then show ?thesis by simp
  next
    assume "\<exists>A c B. ?al = A @ (primaryExt_loop ?al 0 '''', c) # B \<and> 0 < c
         \<and> (\<forall>ec \<in> set A. snd ec < c) \<and> (\<forall>ec \<in> set B. snd ec \<le> c)"
    then obtain A c B where al: "?al = A @ (primaryExt_loop ?al 0 '''', c) # B" by blast
    have "map fst (A @ (primaryExt_loop ?al 0 '''', c) # B)
        = map fst A @ primaryExt_loop ?al 0 '''' # map fst B"
      by simp
    with al have "map fst ?al = map fst A @ primaryExt_loop ?al 0 '''' # map fst B"
      by metis
    then have "primaryExt_loop ?al 0 '''' \<in> set (map fst ?al)"
      by simp
    with fold_tally_invariant [of exts] show ?thesis by simp
  qed
qed

lemma detectLanguage_unrecognized:
  assumes "\<forall>e \<in> set (extensions files). map_of languageMap e = None"
  shows "detectLanguage files = ''Unknown''"
proof -
  have empty: "map_of languageMap '''' = None" by (simp add: languageMap_def)
  from primaryExt_member [of "extensions files"] assms empty
  have "map_of languageMap (primaryExt_loop (fold tally (extensions files) []) 0 '''') = None"
    by auto
  then show ?thesis by (simp add: detectLanguage_label)
qed

lemma winner_unique:
  assumes "winner exts e1" and "winner exts e2"
  shows "e1 = e2"
proof (rule ccontr)
  assume ne: "e1 \<noteq> e2"
  from assms(1) obtain pre1 post1 where
    w1: "exts = pre1 @ e1 # post1"
      "\<forall>e' \<in> set pre1. count_list exts e' < count_list exts e1"
      "\<forall>e' \<in> set exts. count_list exts e' \<le> count_list exts e1"
    unfolding winner_def by blast
  from assms(2) obtain pre2 post2 where
    w2: "exts = pre2 @ e2 # post2"
      "\<forall>e' \<in> set pre2. count_list exts e' < count_list exts e2"
      "\<forall>e' \<in> set exts. count_list exts e' \<le> count_list exts e2"
    unfolding winner_def by blast
  from w1(1) w2(1) have "pre1 @ e1 # post1 = pre2 @ e2 # post2" by simp
  then obtain us where
    "(pre1 = pre2 @ us \<and> us @ e1 # post1 = e2 # post2)
     \<or> (pre1 @ us = pre2 \<and> e1 # post1 = us @ e2 # post2)"
    unfolding append_eq_append_conv2 by blast
  then have "e2 \<in> set pre1 \<or> e1 \<in> set pre2"
    using ne by (cases us) auto
  moreover have "e1 \<in> set exts" "e2 \<in> set exts"
    using w1(1) w2(1) by (metis in_set_conv_decomp)+
  ultimately show False
    using w1(2,3) w2(2,3) by force
qed

section \<open>Claims\<close>

text \<open>
  C9. \<open>generateInstallation\<close> returns the empty string for the empty manifest sequence.
  For a non-empty sequence it returns the level-2 heading \<open>## Installation\<close> followed by
  one command block per manifest, in the order of the sequence: \<open>npm install\<close> with a
  second \<open>yarn install\<close> block for npm, \<open>pip install -r requirements.txt\<close> for pip,
  \<open>cargo build\<close> for cargo (a manifest of type \<open>other\<close> adds nothing). For a single
  cargo manifest the result contains \<open>cargo build\<close> and the heading.
\<close>

theorem generateInstallation_blocks:
  "generateInstallation [] = ''''
   \<and> (ms \<noteq> [] \<longrightarrow>
        generateInstallation ms
          = ''\<newline>## Installation\<newline>\<newline>''
              @ concat (map (\<lambda>m. install_block (DependencyManifest.type m)) ms))
   \<and> (DependencyManifest.type m = Cargo \<longrightarrow>
        sublist ''cargo build'' (generateInstallation [m])
        \<and> sublist ''## Installation'' (generateInstallation [m]))
   \<and> sublist ''npm install'' (install_block Npm)
   \<and> sublist ''yarn install'' (install_block Npm)
   \<and> sublist ''pip install -r requirements.txt'' (install_block Pip)
   \<and> sublist ''cargo build'' (install_block Cargo)"
proof -
  have a: "generateInstallation [] = ''''"
    by (simp add: generateInstallation_def)
  have b: "ms \<noteq> [] \<longrightarrow> generateInstallation ms
          = ''\<newline>## Installation\<newline>\<newline>''
              @ concat (map (\<lambda>m. install_block (DependencyManifest.type m)) ms)"
    by (simp add: generateInstallation_def generateInstallation_loop_eq)
  have c: "sublist ''cargo build'' (generateInstallation [m])
        \<and> sublist ''## Installation'' (generateInstallation [m])"
    if "DependencyManifest.type m = Cargo"
  proof -
    have eq: "generateInstallation [m]
        = ''\<newline>## Installation\<newline>\<newline>```bash\<newline>cargo build\<newline>```\<newline>\<newline>''"
      using that by (simp add: generateInstallation_def)
    have "generateInstallation [m]
        = ''\<newline>## Installation\<newline>\<newline>```bash\<newline>'' @ ''cargo build''
            @ ''\<newline>```\<newline>\<newline>''"
      by (simp add: eq)
    then have c1: "sublist ''cargo build'' (generateInstallation [m])"
      unfolding sublist_def by blast
    have "generateInstallation [m]
        = ''\<newline>'' @ ''## Installation''
            @ ''\<newline>\<newline>```bash\<newline>cargo build\<newline>```\<newline>\<newline>''"
      by (simp add: eq)
    then have "sublist ''## Installation'' (generateInstallation [m])"
      unfolding sublist_def by blast
    with c1 show ?thesis by simp
  qed
  have d1: "sublist ''npm install'' (install_block Npm)"
    unfolding install_block_def by code_simp
  have d2: "sublist ''yarn install'' (install_block Npm)"
    unfolding install_block_def by code_simp
  have d3: "sublist ''pip install -r requirements.txt'' (install_block Pip)"
    unfolding install_block_def by code_simp
  have d4: "sublist ''cargo build'' (install_block Cargo)"
    unfolding install_block_def by code_simp
  from a b c d1 d2 d3 d4 show ?thesis by blast
qed

theorem generateInstallation_blocks_witness:
  "generateInstallation
     [\<lparr>type = Pip, filePath = ''p/requirements.txt'', projectName = JStr ''p'',
       description = JStr '''', dependencies = [''flask'']\<rparr>,
      \<lparr>type = Cargo, filePath = ''p/Cargo.toml'', projectName = JStr ''p'',
       description = JStr '''', dependencies = []\<rparr>]
     = ''\<newline>## Installation\<newline>\<newline>```bash\<newline>pip install -r requirements.txt\<newline>```\<newline>\<newline>```bash\<newline>cargo build\<newline>```\<newline>\<newline>''
   \<and> sublist ''cargo build''
        (generateInstallation
          [\<lparr>type = Cargo, filePath = ''p/Cargo.toml'', projectName = JStr ''p'',
            description = JStr '''', dependencies = []\<rparr>])"
  using generateInstallation_blocks
    [of "[\<lparr>type = Pip, filePath = ''p/requirements.txt'', projectName = JStr ''p'',
           description = JStr '''', dependencies = [''flask'']\<rparr>,
          \<lparr>type = Cargo, filePath = ''p/Cargo.toml'', projectName = JStr ''p'',
           description = JStr '''', dependencies = []\<rparr>]"
        "\<lparr>type = Cargo, filePath = ''p/Cargo.toml'', projectName = JStr ''p'',
           description = JStr '''', dependencies = []\<rparr>"]
  by (simp add: install_block_def)

text \<open>
  C8. The tree renderer emits exactly one line for every node it visits whose depth is
  at least 1 and at most \<open>maxDepth\<close>, in visiting order, and nothing else: no line for
  the root at depth 0 and none for a node deeper than \<open>maxDepth\<close>. A line is the
  two-space unit repeated depth times, the node's name, a \<open>/\<close> when the node is a
  directory, and a newline. Rendering a chain of depth 5 with \<open>maxDepth = 2\<close> gives the
  lines of depth 1 and 2 only.
\<close>

theorem formatTree_lines:
  "formatTree node 0 limit
     = concat (map tree_line (filter (rendered limit) (nodes_with_depth node 0)))
   \<and> formatTree node depth limit
     = concat (map tree_line (filter (rendered limit) (nodes_with_depth node depth)))
   \<and> \<not> rendered limit (0, node)
   \<and> (limit < int d \<longrightarrow> \<not> rendered limit (d, node))
   \<and> tree_line (d, DirectoryNode nm Directory cs p) = repeat ''  '' d @ nm @ ''/'' @ ''\<newline>''
   \<and> tree_line (d, DirectoryNode nm File cs p) = repeat ''  '' d @ nm @ ''\<newline>''
   \<and> formatTree chain5 0 2 = ''  a/\<newline>    b/\<newline>    f.ts\<newline>''"
proof -
  have ex: "formatTree chain5 0 2 = ''  a/\<newline>    b/\<newline>    f.ts\<newline>''"
    by code_simp
  have root: "\<not> rendered limit (0, node)"
    by (simp add: rendered_def)
  have deep: "limit < int d \<longrightarrow> \<not> rendered limit (d, node)"
    by (simp add: rendered_def)
  have dir: "tree_line (d, DirectoryNode nm Directory cs p)
      = repeat ''  '' d @ nm @ ''/'' @ ''\<newline>''"
    by (simp add: tree_line_def)
  have fil: "tree_line (d, DirectoryNode nm File cs p) = repeat ''  '' d @ nm @ ''\<newline>''"
    by (simp add: tree_line_def)
  from formatTree_eq [of node 0 limit] formatTree_eq [of node depth limit]
    root deep dir fil ex
  show ?thesis by blast
qed

theorem formatTree_lines_witness:
  "formatTree chain5 0 1 = ''  a/\<newline>''
   \<and> \<not> rendered 1 (2, chain5)"
proof -
  have nodes: "filter (rendered 1) (nodes_with_depth chain5 0)
      = [(1, DirectoryNode ''a'' Directory
        [DirectoryNode ''b'' Directory
          [DirectoryNode ''c'' Directory
            [DirectoryNode ''d'' Directory
              [DirectoryNode ''e.ts'' File [] ''root/a/b/c/d/e.ts'']
              ''root/a/b/c/d'']
            ''root/a/b/c'']
          ''root/a/b'',
         DirectoryNode ''f.ts'' File [] ''root/a/f.ts'']
        ''root/a'')]"
    by (simp add: chain5_def rendered_def)
  show ?thesis
    using formatTree_lines [where node = chain5 and limit = 1 and depth = 0 and d = 2]
    by (simp add: nodes tree_line_def repeat_def)
qed

text \<open>
  C6. For a path whose \<open>Stats\<close> say it is a file, \<open>scanDirectoryStructure\<close> returns a
  node of type \<open>file\<close> with no children, whatever \<open>maxDepth\<close> and \<open>currentDepth\<close> are.
  For a path that is not a file and is reached with \<open>currentDepth \<ge> maxDepth\<close> it
  returns a node of type \<open>directory\<close> with no children: the node is created, the
  directory is not read.
\<close>

theorem scanDirectoryStructure_leaf_and_cutoff:
  "(statSync env p = Inr stats \<and> isFile stats \<longrightarrow>
      scanDirectoryStructure env p limit depth = Inr (DirectoryNode (basename p) File [] p))
   \<and> (statSync env p = Inr stats \<and> \<not> isFile stats \<and> limit \<le> depth \<longrightarrow>
      scanDirectoryStructure env p limit depth
        = Inr (DirectoryNode (basename p) Directory [] p))"
  using scan_file [of env p stats limit depth] scan_deep [of env p stats limit depth]
  by blast

theorem scanDirectoryStructure_leaf_and_cutoff_witness:
  "statSync demo_env ''/p/a.ts'' = Inr \<lparr>isFile = True\<rparr>
   \<and> scanDirectoryStructure demo_env ''/p/a.ts'' 0 7 = Inr (DirectoryNode ''a.ts'' File [] ''/p/a.ts'')
   \<and> statSync demo_env ''/p/src'' = Inr \<lparr>isFile = False\<rparr>
   \<and> scanDirectoryStructure demo_env ''/p/src'' 1 1 = Inr (DirectoryNode ''src'' Directory [] ''/p/src'')"
proof -
  have f: "statSync demo_env ''/p/a.ts'' = Inr \<lparr>isFile = True\<rparr>"
    by (simp add: demo_env_def)
  have d: "statSync demo_env ''/p/src'' = Inr \<lparr>isFile = False\<rparr>"
    by (simp add: demo_env_def)
  have b1: "basename ''/p/a.ts'' = ''a.ts''" by (simp add: basename_def)
  have b2: "basename ''/p/src'' = ''src''" by (simp add: basename_def)
  from f d b1 b2
    scanDirectoryStructure_leaf_and_cutoff [of demo_env "''/p/a.ts''" "\<lparr>isFile = True\<rparr>" 0 7]
    scanDirectoryStructure_leaf_and_cutoff [of demo_env "''/p/src''" "\<lparr>isFile = False\<rparr>" 1 1]
  show ?thesis by simp
qed

text \<open>
  C7. When a directory is scanned (it is not a file, \<open>currentDepth < maxDepth\<close>, and it can
  be listed), the children of its node are the nodes of the successful scans of its
  entries, in listing order, leaving out every entry that starts with a dot other than
  \<open>.gitignore\<close>, the entries \<open>node_modules\<close> and \<open>dist\<close>, and every entry whose own scan
  throws; the entries after a skipped one are still scanned.
\<close>

theorem scanDirectoryStructure_children:
  assumes "statSync env p = Inr stats" and "\<not> isFile stats" and "depth < limit"
    and "readdirSync env p = Inr entries"
  shows "scanDirectoryStructure env p limit depth
    = Inr (DirectoryNode (basename p) Directory
        (concat (map (\<lambda>entry. case scanDirectoryStructure env (join [p, entry]) limit (depth + 1) of
                                Inl e \<Rightarrow> [] | Inr childNode \<Rightarrow> [childNode])
           (filter (\<lambda>entry. \<not> (startsWith entry ''.'' \<and> entry \<noteq> ''.gitignore'')
                      \<and> entry \<noteq> ''node_modules'' \<and> entry \<noteq> ''dist'') entries)))
        p)"
  using assms by (rule scan_dir)

theorem scanDirectoryStructure_children_witness:
  "scanDirectoryStructure demo_env ''/p'' 3 0
    = Inr (DirectoryNode ''p'' Directory
       [DirectoryNode ''.gitignore'' File [] ''/p/.gitignore'',
        DirectoryNode ''src'' Directory
         [DirectoryNode ''b.ts'' File [] ''/p/src/b.ts''] ''/p/src'',
        DirectoryNode ''a.ts'' File [] ''/p/a.ts'',
        DirectoryNode ''requirements.txt'' File [] ''/p/requirements.txt'']
       ''/p'')"
proof -
  have h1: "statSync demo_env ''/p'' = Inr \<lparr>isFile = False\<rparr>"
    by (simp add: demo_env_def)
  have h2: "\<not> isFile \<lparr>isFile = False\<rparr>" by simp
  have h3: "(0::int) < 3" by simp
  have h4: "readdirSync demo_env ''/p''
      = Inr [''.git'', ''.gitignore'', ''.env'', ''node_modules'', ''dist'',
             ''gone'', ''src'', ''a.ts'', ''requirements.txt'']"
    by (simp add: demo_env_def)
  have kept: "filter (\<lambda>entry. \<not> (startsWith entry ''.'' \<and> entry \<noteq> ''.gitignore'')
                      \<and> entry \<noteq> ''node_modules'' \<and> entry \<noteq> ''dist'')
        [''.git'', ''.gitignore'', ''.env'', ''node_modules'', ''dist'',
         ''gone'', ''src'', ''a.ts'', ''requirements.txt'']
      = [''.gitignore'', ''gone'', ''src'', ''a.ts'', ''requirements.txt'']"
    by (simp add: startsWith_def)
  have c1: "scanDirectoryStructure demo_env (join [''/p'', ''.gitignore'']) 3 (0 + 1)
      = Inr (DirectoryNode ''.gitignore'' File [] ''/p/.gitignore'')"
    by code_simp
  have c2: "scanDirectoryStructure demo_env (join [''/p'', ''gone'']) 3 (0 + 1) = Inl SystemError"
    by code_simp
  have c3: "scanDirectoryStructure demo_env (join [''/p'', ''src'']) 3 (0 + 1)
      = Inr (DirectoryNode ''src'' Directory
         [DirectoryNode ''b.ts'' File [] ''/p/src/b.ts''] ''/p/src'')"
    by code_simp
  have c4: "scanDirectoryStructure demo_env (join [''/p'', ''a.ts'']) 3 (0 + 1)
      = Inr (DirectoryNode ''a.ts'' File [] ''/p/a.ts'')"
    by code_simp
  have c5: "scanDirectoryStructure demo_env (join [''/p'', ''requirements.txt'']) 3 (0 + 1)
      = Inr (DirectoryNode ''requirements.txt'' File [] ''/p/requirements.txt'')"
    by code_simp
  have b: "basename ''/p'' = ''p''" by (simp add: basename_def)
  from scanDirectoryStructure_children [OF h1 h2 h3 h4] show ?thesis
    by (simp only: kept list.map concat.simps c1 c2 c3 c4 c5 b sum.case append.simps)
qed

text \<open>
  C10. When the configuration file is absent, cannot be read, or does not parse,
  \<open>loadConfig\<close> returns the default configuration: \<open>excludeSections\<close> empty,
  \<open>customContent\<close> empty, \<open>maxDepth\<close> 3, \<open>includeHiddenFiles\<close> false. For every file
  system and every root path \<open>loadConfig\<close> returns a configuration, and each of its four
  fields is defined.
\<close>

theorem loadConfig_defaults:
  "(\<not> existsSync env (join [rootPath, ''.readmerc.json''])
      \<longrightarrow> loadConfig env rootPath = Inr default_config)
   \<and> (readFileSync env (join [rootPath, ''.readmerc.json'']) = Inl e
      \<longrightarrow> loadConfig env rootPath = Inr default_config)
   \<and> (readFileSync env (join [rootPath, ''.readmerc.json'']) = Inr content
        \<and> JSON_parse env content = Inl e
      \<longrightarrow> loadConfig env rootPath = Inr default_config)
   \<and> (\<exists>c. loadConfig env rootPath = Inr c
          \<and> defined (excludeSections c) \<and> defined (customContent c)
          \<and> defined (maxDepth c) \<and> defined (includeHiddenFiles c))
   \<and> default_config
       = \<lparr>excludeSections = JArr [], customContent = JObj [], maxDepth = JNum 3,
          includeHiddenFiles = JBool False\<rparr>"
  using loadConfig_absent [of env rootPath] loadConfig_unreadable [of env rootPath e]
    loadConfig_unparsable [of env rootPath content e] loadConfig_total [of env rootPath]
    default_config_def
  by blast

theorem loadConfig_defaults_witness:
  "\<not> existsSync demo_env (join [''/p'', ''.readmerc.json''])
   \<and> loadConfig demo_env ''/p'' = Inr default_config
   \<and> existsSync demo_env (join [''/p/dist'', ''.readmerc.json''])
   \<and> readFileSync demo_env (join [''/p/dist'', ''.readmerc.json'']) = Inl SystemError
   \<and> loadConfig demo_env ''/p/dist'' = Inr default_config
   \<and> existsSync demo_env (join [''/p/src'', ''.readmerc.json''])
   \<and> readFileSync demo_env (join [''/p/src'', ''.readmerc.json'']) = Inr ''{ invalid json }''
   \<and> JSON_parse demo_env ''{ invalid json }'' = Inl SyntaxError
   \<and> loadConfig demo_env ''/p/src'' = Inr default_config
   \<and> excludeSections default_config = JArr []
   \<and> customContent default_config = JObj []
   \<and> maxDepth default_config = JNum 3
   \<and> includeHiddenFiles default_config = JBool False"
proof -
  have j1: "join [''/p'', ''.readmerc.json''] = ''/p/.readmerc.json''"
    by code_simp
  have j2: "join [''/p/dist'', ''.readmerc.json''] = ''/p/dist/.readmerc.json''"
    by code_simp
  have j3: "join [''/p/src'', ''.readmerc.json''] = ''/p/src/.readmerc.json''"
    by code_simp
  have a: "\<not> existsSync demo_env (join [''/p'', ''.readmerc.json''])"
    unfolding j1 by (simp add: demo_env_def)
  have x2: "existsSync demo_env (join [''/p/dist'', ''.readmerc.json''])"
    unfolding j2 by (simp add: demo_env_def)
  have r2: "readFileSync demo_env (join [''/p/dist'', ''.readmerc.json'']) = Inl SystemError"
    unfolding j2 by (simp add: demo_env_def)
  have x3: "existsSync demo_env (join [''/p/src'', ''.readmerc.json''])"
    unfolding j3 by (simp add: demo_env_def)
  have r3: "readFileSync demo_env (join [''/p/src'', ''.readmerc.json''])
      = Inr ''{ invalid json }''"
    unfolding j3 by (simp add: demo_env_def)
  have p3: "JSON_parse demo_env ''{ invalid json }'' = Inl SyntaxError"
    by (simp add: demo_env_def)
  from a loadConfig_defaults [of demo_env "''/p''" SystemError "''''"]
  have l1: "loadConfig demo_env ''/p'' = Inr default_config" by blast
  from r2 loadConfig_defaults [of demo_env "''/p/dist''" SystemError "''''"]
  have l2: "loadConfig demo_env ''/p/dist'' = Inr default_config" by blast
  from r3 p3 loadConfig_defaults [of demo_env "''/p/src''" SyntaxError "''{ invalid json }''"]
  have l3: "loadConfig demo_env ''/p/src'' = Inr default_config" by blast
  have f: "excludeSections default_config = JArr []
     \<and> customContent default_config = JObj []
     \<and> maxDepth default_config = JNum 3
     \<and> includeHiddenFiles default_config = JBool False"
    by (simp add: default_config_def)
  from a l1 x2 r2 l2 x3 r3 p3 l3 f show ?thesis by blast
qed

text \<open>
  C1. Whenever \<open>analyzeProject\<close> produces metadata (it does as soon as the root path can
  be examined), \<open>name\<close> is the \<open>projectName\<close> of the first manifest found and
  \<open>description\<close> is that manifest's \<open>description\<close>; with no manifest found they are the
  base name of the root path and the empty string. The manifests found are listed in the
  order npm, pip, cargo.
\<close>

theorem analyzeProject_name_description:
  "(statSync env rootPath = Inr stats \<longrightarrow> (\<exists>meta. analyzeProject env rootPath = Inr meta))
   \<and> (analyzeProject env rootPath = Inr meta \<longrightarrow>
        ProjectMetadata.name meta
          = (case findDependencyManifests env rootPath of
               [] \<Rightarrow> JStr (basename rootPath) | m # ms \<Rightarrow> projectName m)
        \<and> ProjectMetadata.description meta
          = (case findDependencyManifests env rootPath of
               [] \<Rightarrow> JStr '''' | m # ms \<Rightarrow> DependencyManifest.description m)
        \<and> ProjectMetadata.dependencies meta = findDependencyManifests env rootPath)
   \<and> subseq (map DependencyManifest.type (findDependencyManifests env rootPath))
        [Npm, Pip, Cargo]"
proof -
  have a: "\<exists>meta. analyzeProject env rootPath = Inr meta" if "statSync env rootPath = Inr stats"
    using scan_total [OF that, of 3 0] by (auto simp: analyzeProject_def Let_def)
  have b: "ProjectMetadata.dependencies meta = findDependencyManifests env rootPath"
    if "analyzeProject env rootPath = Inr meta"
    using that by (auto simp: analyzeProject_def Let_def split: sum.splits)
  from a b analyzeProject_name [of env rootPath meta] manifest_order [of env rootPath]
  show ?thesis by blast
qed

theorem analyzeProject_name_description_witness:
  "statSync npm_env ''/demo'' = Inr \<lparr>isFile = False\<rparr>
   \<and> analyzeProject npm_env ''/demo''
     = Inr \<lparr>name = JStr ''demo'', description = JStr ''desc'',
          language = ''TypeScript'', entryPoint = JNull, scripts = JObj [],
          dependencies =
            [\<lparr>type = Npm, filePath = ''/demo/package.json'', projectName = JStr ''demo'',
              description = JStr ''desc'', dependencies = []\<rparr>],
          structure =
            DirectoryNode ''demo'' Directory
             [DirectoryNode ''a.ts'' File [] ''/demo/a.ts'',
              DirectoryNode ''package.json'' File [] ''/demo/package.json'']
             ''/demo''\<rparr>
   \<and> (case findDependencyManifests npm_env ''/demo'' of
         [] \<Rightarrow> JStr (basename ''/demo'') | m # ms \<Rightarrow> projectName m) = JStr ''demo''
   \<and> (case findDependencyManifests npm_env ''/demo'' of
         [] \<Rightarrow> JStr '''' | m # ms \<Rightarrow> DependencyManifest.description m) = JStr ''desc''"
proof -
  let ?M = "\<lparr>name = JStr ''demo'', description = JStr ''desc'',
          language = ''TypeScript'', entryPoint = JNull, scripts = JObj [],
          dependencies =
            [\<lparr>type = Npm, filePath = ''/demo/package.json'', projectName = JStr ''demo'',
              description = JStr ''desc'', dependencies = []\<rparr>],
          structure =
            DirectoryNode ''demo'' Directory
             [DirectoryNode ''a.ts'' File [] ''/demo/a.ts'',
              DirectoryNode ''package.json'' File [] ''/demo/package.json'']
             ''/demo''\<rparr>"
  have s: "statSync npm_env ''/demo'' = Inr \<lparr>isFile = False\<rparr>"
    by (simp add: npm_env_def)
  have a: "analyzeProject npm_env ''/demo'' = Inr ?M"
    by code_simp
  from analyzeProject_name_description
         [where env = npm_env and rootPath = "''/demo''" and meta = ?M] a
  have "ProjectMetadata.name ?M
          = (case findDependencyManifests npm_env ''/demo'' of
               [] \<Rightarrow> JStr (basename ''/demo'') | m # ms \<Rightarrow> projectName m)
        \<and> ProjectMetadata.description ?M
          = (case findDependencyManifests npm_env ''/demo'' of
               [] \<Rightarrow> JStr '''' | m # ms \<Rightarrow> DependencyManifest.description m)"
    by blast
  then have "(case findDependencyManifests npm_env ''/demo'' of
         [] \<Rightarrow> JStr (basename ''/demo'') | m # ms \<Rightarrow> projectName m) = JStr ''demo''
     \<and> (case findDependencyManifests npm_env ''/demo'' of
         [] \<Rightarrow> JStr '''' | m # ms \<Rightarrow> DependencyManifest.description m) = JStr ''desc''"
    by simp
  with s a show ?thesis by blast
qed

text \<open>
  C5 (as stated). The dependencies of the pip record are not the trimmed lines: for a
  \<open>requirements.txt\<close> with the line \<open>  requests  \<close> the record keeps the line with its
  spaces.
\<close>

theorem pip_dependencies_trimmed_counterexample:
  "existsSync demo_env (join [''/p'', ''requirements.txt''])
   \<and> readFileSync demo_env (join [''/p'', ''requirements.txt'']) = Inr demo_requirements
   \<and> map DependencyManifest.dependencies (findDependencyManifests demo_env ''/p'')
       = [[''flask'', ''  requests  '', ''numpy==1.0'']]
   \<and> pip_dependencies_spec demo_requirements = [''flask'', ''requests'', ''numpy==1.0'']
   \<and> map DependencyManifest.dependencies (findDependencyManifests demo_env ''/p'')
       \<noteq> [pip_dependencies_spec demo_requirements]"
proof -
  have a: "existsSync demo_env (join [''/p'', ''requirements.txt''])" by code_simp
  have b: "readFileSync demo_env (join [''/p'', ''requirements.txt'']) = Inr demo_requirements"
    by code_simp
  have c: "map DependencyManifest.dependencies (findDependencyManifests demo_env ''/p'')
       = [[''flask'', ''  requests  '', ''numpy==1.0'']]"
    by code_simp
  have d: "pip_dependencies_spec demo_requirements = [''flask'', ''requests'', ''numpy==1.0'']"
    by code_simp
  from a b c d show ?thesis by simp
qed

text \<open>
  C5 (amended). For every root directory whose \<open>requirements.txt\<close> exists and can be read,
  \<open>findDependencyManifests\<close> returns exactly one pip-typed record; its \<open>projectName\<close> is
  the base name of the directory, its \<open>description\<close> is the empty string, and its
  \<open>dependencies\<close> are the lines of the file (the pieces between newline characters) that
  are not blank after trimming and do not start with \<open>#\<close>, in file order, each kept as
  it is written in the file.
\<close>

theorem findDependencyManifests_pip:
  assumes "existsSync env (join [rootPath, ''requirements.txt''])"
    and "readFileSync env (join [rootPath, ''requirements.txt'']) = Inr content"
  shows "filter (\<lambda>m. DependencyManifest.type m = Pip) (findDependencyManifests env rootPath)
      = [\<lparr>type = Pip,
          filePath = join [rootPath, ''requirements.txt''],
          projectName = JStr (basename rootPath),
          description = JStr '''',
          dependencies = filter (\<lambda>line. trim line \<noteq> '''' \<and> \<not> startsWith line ''#'')
                           (split content CHR ''\<newline>'')\<rparr>]
    \<and> join_with ''\<newline>'' (split content CHR ''\<newline>'') = content
    \<and> (\<forall>line \<in> set (split content CHR ''\<newline>''). CHR ''\<newline>'' \<notin> set line)"
proof -
  have npm: "filter (\<lambda>m. DependencyManifest.type m = Pip)
      (push_if_read env q (read_package_json env rootPath q) []) = []" for q
    using push_if_read_type [of "read_package_json env rootPath q" Npm Pip env q]
      read_package_json_shape [of env rootPath q]
    by simp
  have cargo: "filter (\<lambda>m. DependencyManifest.type m = Pip)
      (push_if_read env q (read_cargo_toml env rootPath q) []) = []" for q
    using push_if_read_type [of "read_cargo_toml env rootPath q" Cargo Pip env q]
      read_cargo_toml_shape [of env rootPath q]
    by simp
  have pip: "push_if_read env (join [rootPath, ''requirements.txt''])
        (read_requirements env rootPath (join [rootPath, ''requirements.txt''])) []
      = [\<lparr>type = Pip,
          filePath = join [rootPath, ''requirements.txt''],
          projectName = JStr (basename rootPath),
          description = JStr '''',
          dependencies = filter (\<lambda>line. trim line \<noteq> '''' \<and> \<not> startsWith line ''#'')
                           (split content CHR ''\<newline>'')\<rparr>]"
    using assms by (simp add: read_requirements_def push_if_read_def Let_def)
  have first: "filter (\<lambda>m. DependencyManifest.type m = Pip) (findDependencyManifests env rootPath)
      = [\<lparr>type = Pip,
          filePath = join [rootPath, ''requirements.txt''],
          projectName = JStr (basename rootPath),
          description = JStr '''',
          dependencies = filter (\<lambda>line. trim line \<noteq> '''' \<and> \<not> startsWith line ''#'')
                           (split content CHR ''\<newline>'')\<rparr>]"
    by (simp only: findDependencyManifests_eq filter_append npm cargo pip) simp
  from first join_with_split [of "CHR ''\<newline>''" content] split_no_sep [of _ content "CHR ''\<newline>''"]
  show ?thesis by simp
qed

theorem findDependencyManifests_pip_witness:
  "existsSync demo_env (join [''/p'', ''requirements.txt''])
   \<and> readFileSync demo_env (join [''/p'', ''requirements.txt'']) = Inr demo_requirements
   \<and> filter (\<lambda>m. DependencyManifest.type m = Pip) (findDependencyManifests demo_env ''/p'')
      = [\<lparr>type = Pip,
          filePath = ''/p/requirements.txt'',
          projectName = JStr ''p'',
          description = JStr '''',
          dependencies = [''flask'', ''  requests  '', ''numpy==1.0'']\<rparr>]"
proof -
  have a: "existsSync demo_env (join [''/p'', ''requirements.txt''])" by code_simp
  have b: "readFileSync demo_env (join [''/p'', ''requirements.txt'']) = Inr demo_requirements"
    by code_simp
  have j: "join [''/p'', ''requirements.txt''] = ''/p/requirements.txt''" by code_simp
  have n: "basename ''/p'' = ''p''" by code_simp
  have l: "filter (\<lambda>line. trim line \<noteq> '''' \<and> \<not> startsWith line ''#'')
             (split demo_requirements CHR ''\<newline>'')
      = [''flask'', ''  requests  '', ''numpy==1.0'']"
    by code_simp
  from findDependencyManifests_pip [OF a b, THEN conjunct1] a b show ?thesis
    by (simp only: j n l)
qed

text \<open>
  C2. \<open>assembleSections\<close> concatenates, in the order title, description, installation,
  usage, structure, license, the values of exactly those of these six keys that are in
  the mapping with a non-empty value; the result is that concatenation trimmed, followed
  by one newline, so it ends with exactly one newline character.
\<close>

theorem assembleSections_ordered:
  "assembleSections sections
     = trim (concat (map (\<lambda>key. the (map_of sections key))
               (filter (\<lambda>key. map_of sections key \<noteq> None \<and> map_of sections key \<noteq> Some '''')
                  order)))
         @ ''\<newline>''
   \<and> order = [''title'', ''description'', ''installation'', ''usage'', ''structure'', ''license'']
   \<and> last (assembleSections sections) = CHR ''\<newline>''
   \<and> (butlast (assembleSections sections) = []
        \<or> last (butlast (assembleSections sections)) \<noteq> CHR ''\<newline>'')"
proof -
  have eq: "assembleSections sections
     = trim (concat (map (\<lambda>key. the (map_of sections key))
               (filter (\<lambda>key. map_of sections key \<noteq> None \<and> map_of sections key \<noteq> Some '''')
                  order)))
         @ ''\<newline>''"
    by (simp add: assembleSections_def assembleSections_loop_eq)
  have nl: "is_space CHR ''\<newline>''" by (simp add: is_space_def)
  have tail: "butlast (assembleSections sections) = []
        \<or> last (butlast (assembleSections sections)) \<noteq> CHR ''\<newline>''"
    using trim_no_trailing_space [of "assembleSections_loop sections order ''''"] nl
    by (auto simp: assembleSections_def)
  have lst: "last (assembleSections sections) = CHR ''\<newline>''"
    by (simp add: assembleSections_def)
  from eq order_def lst tail show ?thesis by blast
qed

theorem assembleSections_ordered_witness:
  "assembleSections
     [(''usage'', ''\<newline>## Usage\<newline>\<newline>''), (''extra'', ''zzz''), (''description'', ''''),
      (''title'', ''# T'')]
     = ''# T\<newline>## Usage\<newline>''"
proof -
  have f: "filter (\<lambda>key. map_of [(''usage'', ''\<newline>## Usage\<newline>\<newline>''), (''extra'', ''zzz''),
                (''description'', ''''), (''title'', ''# T'')] key \<noteq> None
             \<and> map_of [(''usage'', ''\<newline>## Usage\<newline>\<newline>''), (''extra'', ''zzz''),
                (''description'', ''''), (''title'', ''# T'')] key \<noteq> Some '''') order
      = [''title'', ''usage'']"
    by (simp add: order_def)
  have t: "trim ''# T\<newline>## Usage\<newline>\<newline>'' = ''# T\<newline>## Usage''"
    by code_simp
  from assembleSections_ordered [of "[(''usage'', ''\<newline>## Usage\<newline>\<newline>''), (''extra'', ''zzz''),
      (''description'', ''''), (''title'', ''# T'')]", THEN conjunct1]
  show ?thesis by (simp only: f) (simp add: t)
qed

text \<open>
  C3 (as stated). Custom content does not reinstate every excluded key: for the excluded
  key \<open>__proto__\<close> with the custom content \<open>{"__proto__": "X"}\<close>, as \<open>JSON.parse\<close> reads
  it from the configuration file, the final mapping has no such key.
\<close>

theorem custom_content_proto_counterexample:
  "List.member [''__proto__''] ''__proto__''
   \<and> map_of [(''__proto__'', ''X'')] ''__proto__'' = Some ''X''
   \<and> ''X'' \<noteq> ''''
   \<and> main_apply_config [(''title'', ''T'')] [''__proto__''] [(''__proto__'', ''X'')]
       = [(''title'', ''T'')]
   \<and> map_of (main_apply_config [(''title'', ''T'')] [''__proto__''] [(''__proto__'', ''X'')])
        ''__proto__'' \<noteq> Some ''X''"
proof -
  have e: "main_apply_config [(''title'', ''T'')] [''__proto__''] [(''__proto__'', ''X'')]
       = [(''title'', ''T'')]"
    by code_simp
  show ?thesis unfolding e by simp
qed

text \<open>
  C3 (amended). Exclusion followed by custom content, as \<open>main\<close> applies them. For the
  sections \<open>{title: "T", description: "D"}\<close>, the exclusion list \<open>["description"]\<close> and the
  custom content \<open>{description: "X"}\<close> the result is \<open>{title: "T", description: "X"}\<close>. In
  general an excluded key is absent after exclusion; a key other than \<open>__proto__\<close> for
  which the custom content has a non-empty value ends with that value, also when
  exclusion had removed it; and every key for which the custom content has no value or
  the empty string is as exclusion left it.
\<close>

theorem exclusion_then_custom_content:
  assumes "distinct (map fst custom)"
  shows "main_apply_config [(''title'', ''T''), (''description'', ''D'')] [''description'']
        [(''description'', ''X'')]
      = [(''title'', ''T''), (''description'', ''X'')]
    \<and> main_apply_config sections excluded custom
      = applyCustomContent (applySectionExclusion sections excluded) custom
    \<and> (List.member excluded k \<longrightarrow> map_of (applySectionExclusion sections excluded) k = None)
    \<and> (k \<noteq> ''__proto__'' \<and> map_of custom k = Some v \<and> v \<noteq> '''' \<longrightarrow>
         map_of (main_apply_config sections excluded custom) k = Some v)
    \<and> (map_of custom k = None \<or> map_of custom k = Some '''' \<longrightarrow>
         map_of (main_apply_config sections excluded custom) k
           = map_of (applySectionExclusion sections excluded) k)"
proof -
  have ex: "main_apply_config [(''title'', ''T''), (''description'', ''D'')] [''description'']
        [(''description'', ''X'')]
      = [(''title'', ''T''), (''description'', ''X'')]"
    by code_simp
  have comp: "main_apply_config sections excluded custom
      = applyCustomContent (applySectionExclusion sections excluded) custom"
    by (simp add: main_apply_config_def)
  have set: "map_of (main_apply_config sections excluded custom) k = Some v"
    if "k \<noteq> ''__proto__''" "map_of custom k = Some v" "v \<noteq> ''''"
    using that by (simp add: comp applyCustomContent_map_of [OF assms that(1)])
  have keep: "map_of (main_apply_config sections excluded custom) k
           = map_of (applySectionExclusion sections excluded) k"
    if "map_of custom k = None \<or> map_of custom k = Some ''''"
    unfolding comp using assms that by (rule applyCustomContent_untouched)
  from ex comp set keep applySectionExclusion_dropped [of excluded k sections]
  show ?thesis by blast
qed

theorem exclusion_then_custom_content_witness:
  "distinct (map fst [(''description'', ''X''), (''usage'', '''')])
   \<and> List.member [''description'', ''usage''] ''description''
   \<and> map_of (applySectionExclusion [(''title'', ''T''), (''description'', ''D''), (''usage'', ''U'')]
        [''description'', ''usage'']) ''description'' = None
   \<and> ''description'' \<noteq> ''__proto__''
   \<and> map_of [(''description'', ''X''), (''usage'', '''')] ''description'' = Some ''X''
   \<and> map_of (main_apply_config [(''title'', ''T''), (''description'', ''D''), (''usage'', ''U'')]
        [''description'', ''usage''] [(''description'', ''X''), (''usage'', '''')]) ''description''
       = Some ''X''
   \<and> map_of [(''description'', ''X''), (''usage'', '''')] ''usage'' = Some ''''
   \<and> map_of (main_apply_config [(''title'', ''T''), (''description'', ''D''), (''usage'', ''U'')]
        [''description'', ''usage''] [(''description'', ''X''), (''usage'', '''')]) ''usage''
       = map_of (applySectionExclusion [(''title'', ''T''), (''description'', ''D''), (''usage'', ''U'')]
        [''description'', ''usage'']) ''usage''
   \<and> main_apply_config [(''title'', ''T''), (''description'', ''D''), (''usage'', ''U'')]
        [''description'', ''usage''] [(''description'', ''X''), (''usage'', '''')]
       = [(''title'', ''T''), (''description'', ''X'')]"
proof -
  let ?S = "[(''title'', ''T''), (''description'', ''D''), (''usage'', ''U'')]"
  let ?E = "[''description'', ''usage'']"
  let ?C = "[(''description'', ''X''), (''usage'', '''')]"
  have d: "distinct (map fst ?C)" by simp
  have m: "List.member ?E ''description''" by simp
  have p: "''description'' \<noteq> ''__proto__''" by simp
  have c: "map_of ?C ''description'' = Some ''X''" by simp
  have n: "''X'' \<noteq> ''''" by simp
  have u: "map_of ?C ''usage'' = Some ''''" by simp
  have e: "main_apply_config ?S ?E ?C = [(''title'', ''T''), (''description'', ''X'')]"
    by code_simp
  note t1 = exclusion_then_custom_content [OF d, of ?S ?E "''description''" "''X''"]
  note t2 = exclusion_then_custom_content [OF d, of ?S ?E "''usage''" "''''"]
  from t1 m have r1: "map_of (applySectionExclusion ?S ?E) ''description'' = None" by blast
  from t1 p c n have r2: "map_of (main_apply_config ?S ?E ?C) ''description'' = Some ''X''"
    by blast
  from t2 u have r3: "map_of (main_apply_config ?S ?E ?C) ''usage''
      = map_of (applySectionExclusion ?S ?E) ''usage''"
    by blast
  from d m r1 p c r2 u r3 e show ?thesis by blast
qed

text \<open>
  C4 (as stated). \<open>Unknown\<close> is not reserved for sequences without a recognized
  extension, and the result is not always a language label: with two \<open>.md\<close> files and
  one \<open>.ts\<close> file the most frequent extension is \<open>.md\<close>, which the table does not have,
  and the result is \<open>Unknown\<close> although \<open>.ts\<close> is recognized.
\<close>

theorem detectLanguage_unrecognized_winner_counterexample:
  "extensions [''README.md'', ''CHANGELOG.md'', ''index.ts''] = [''.md'', ''.md'', ''.ts'']
   \<and> map_of languageMap ''.ts'' = Some ''TypeScript''
   \<and> map_of languageMap ''.md'' = None
   \<and> detectLanguage [''README.md'', ''CHANGELOG.md'', ''index.ts''] = ''Unknown''
   \<and> detectLanguage [''README.md'', ''CHANGELOG.md'', ''index.ts''] \<noteq> ''TypeScript''"
proof -
  have a: "extensions [''README.md'', ''CHANGELOG.md'', ''index.ts'']
      = [''.md'', ''.md'', ''.ts'']"
    by code_simp
  have b: "map_of languageMap ''.ts'' = Some ''TypeScript''" by code_simp
  have c: "map_of languageMap ''.md'' = None" by code_simp
  have d: "detectLanguage [''README.md'', ''CHANGELOG.md'', ''index.ts''] = ''Unknown''"
    by code_simp
  from a b c d show ?thesis by simp
qed

text \<open>
  C4 (amended). \<open>detectLanguage\<close> tallies the non-empty lower-cased extensions of the
  file names, recognized or not. When there is at least one, it picks the winner: the
  extension that no other exceeds in count and that, among those with the greatest
  count, is met first in input order (there is exactly one such extension); the result
  is the winner's label in the table, and \<open>Unknown\<close> when the table has no label for the
  winner. In particular, when no extension of the sequence is in the table (also for the
  empty sequence) the result is \<open>Unknown\<close>. The result is never the empty string, and two
  sequences with the same extensions in the same order give the same result.
\<close>

theorem detectLanguage_winner:
  "(extensions files \<noteq> [] \<longrightarrow>
      (\<exists>e. winner (extensions files) e
         \<and> (\<forall>e'. winner (extensions files) e' \<longrightarrow> e' = e)
         \<and> detectLanguage files
             = (case map_of languageMap e of None \<Rightarrow> ''Unknown'' | Some label \<Rightarrow> label)))
   \<and> ((\<forall>e \<in> set (extensions files). map_of languageMap e = None) \<longrightarrow>
        detectLanguage files = ''Unknown'')
   \<and> detectLanguage [] = ''Unknown''
   \<and> detectLanguage files \<noteq> ''''
   \<and> (extensions files' = extensions files \<longrightarrow> detectLanguage files' = detectLanguage files)"
proof -
  have a: "\<exists>e. winner (extensions files) e
         \<and> (\<forall>e'. winner (extensions files) e' \<longrightarrow> e' = e)
         \<and> detectLanguage files
             = (case map_of languageMap e of None \<Rightarrow> ''Unknown'' | Some label \<Rightarrow> label)"
    if "extensions files \<noteq> []"
    using primaryExt_winner [OF that] detectLanguage_label [of files] winner_unique
    by blast
  have b: "detectLanguage [] = ''Unknown''"
    using detectLanguage_unrecognized [of "[]"] by (simp add: extensions_def)
  have c: "detectLanguage files' = detectLanguage files"
    if "extensions files' = extensions files"
    using that by (simp add: detectLanguage_label)
  from a b c detectLanguage_unrecognized [of files] detectLanguage_nonempty [of files]
  show ?thesis by blast
qed

theorem detectLanguage_winner_witness:
  "extensions [''a.js'', ''src/b.ts'', ''c.TS'', ''d.js'', ''README.md'', ''Makefile'', ''.env'']
     = [''.js'', ''.ts'', ''.ts'', ''.js'', ''.md'']
   \<and> detectLanguage [''a.js'', ''src/b.ts'', ''c.TS'', ''d.js'', ''README.md'', ''Makefile'', ''.env'']
     = ''JavaScript''
   \<and> extensions [''x.JS'', ''lib/y.ts'', ''z.ts'', ''w.js'', ''NOTES.MD'']
     = [''.js'', ''.ts'', ''.ts'', ''.js'', ''.md'']
   \<and> detectLanguage [''x.JS'', ''lib/y.ts'', ''z.ts'', ''w.js'', ''NOTES.MD''] = ''JavaScript''
   \<and> extensions [''README.md'', ''notes.txt'', ''Makefile''] = [''.md'', ''.txt'']
   \<and> map_of languageMap ''.md'' = None
   \<and> map_of languageMap ''.txt'' = None
   \<and> detectLanguage [''README.md'', ''notes.txt'', ''Makefile''] = ''Unknown''"
proof -
  let ?F = "[''a.js'', ''src/b.ts'', ''c.TS'', ''d.js'', ''README.md'', ''Makefile'', ''.env'']"
  let ?F' = "[''x.JS'', ''lib/y.ts'', ''z.ts'', ''w.js'', ''NOTES.MD'']"
  let ?G = "[''README.md'', ''notes.txt'', ''Makefile'']"
  have x: "extensions ?F = [''.js'', ''.ts'', ''.ts'', ''.js'', ''.md'']"
    by code_simp
  have x': "extensions ?F' = [''.js'', ''.ts'', ''.ts'', ''.js'', ''.md'']"
    by code_simp
  have w: "winner [''.js'', ''.ts'', ''.ts'', ''.js'', ''.md''] ''.js''"
    unfolding winner_def
    by (intro exI [of _ "[]"] exI [of _ "[''.ts'', ''.ts'', ''.js'', ''.md'']"]) simp
  have l: "map_of languageMap ''.js'' = Some ''JavaScript''" by code_simp
  have "extensions ?F \<noteq> []" unfolding x by simp
  with detectLanguage_winner [of ?F] obtain e where
    e: "\<forall>e'. winner (extensions ?F) e' \<longrightarrow> e' = e"
      "detectLanguage ?F
         = (case map_of languageMap e of None \<Rightarrow> ''Unknown'' | Some label \<Rightarrow> label)"
    by blast
  from e(1) w have "e = ''.js''" unfolding x by blast
  with e(2) l have d: "detectLanguage ?F = ''JavaScript''" by simp
  have "extensions ?F' = extensions ?F" unfolding x x' by simp
  with detectLanguage_winner [of ?F ?F'] d
  have d': "detectLanguage ?F' = ''JavaScript''" by metis
  have y: "extensions ?G = [''.md'', ''.txt'']"
    by code_simp
  have n1: "map_of languageMap ''.md'' = None" by code_simp
  have n2: "map_of languageMap ''.txt'' = None" by code_simp
  have u: "\<forall>e \<in> set (extensions ?G). map_of languageMap e = None"
    unfolding y using n1 n2 by simp
  from detectLanguage_winner [of ?G] u
  have "detectLanguage ?G = ''Unknown''" by blast
  with x d x' d' y n1 n2 show ?thesis by blast
qed

end
